theory Spec2Isabelle
  imports Complex_Main "HOL-Library.Multiset" "HOL-Library.Char_ord" "HOL-Library.List_Lexorder"
begin

section \<open>Values of the host language\<close>

subsection \<open>Numbers\<close>

text \<open>
  The pages compute with JavaScript numbers. Finite values are taken as exact rationals
  (binary rounding and the sign of zero are left out); the three values that are not
  finite are kept, because a division by zero produces them instead of raising.
\<close>

datatype number = Fin rat | NaN | PosInf | NegInf

fun num_div :: "number \<Rightarrow> number \<Rightarrow> number" where
  "num_div (Fin a) (Fin b) =
     (if b = 0 then (if a = 0 then NaN else if 0 < a then PosInf else NegInf)
      else Fin (a / b))"
| "num_div NaN y = NaN"
| "num_div x NaN = NaN"
| "num_div (Fin a) y = Fin 0"
| "num_div PosInf (Fin b) = (if 0 \<le> b then PosInf else NegInf)"
| "num_div NegInf (Fin b) = (if 0 \<le> b then NegInf else PosInf)"
| "num_div x y = NaN"

fun num_mul :: "number \<Rightarrow> number \<Rightarrow> number" where
  "num_mul (Fin a) (Fin b) = Fin (a * b)"
| "num_mul NaN y = NaN"
| "num_mul x NaN = NaN"
| "num_mul (Fin a) PosInf = (if a = 0 then NaN else if 0 < a then PosInf else NegInf)"
| "num_mul (Fin a) NegInf = (if a = 0 then NaN else if 0 < a then NegInf else PosInf)"
| "num_mul PosInf (Fin b) = (if b = 0 then NaN else if 0 < b then PosInf else NegInf)"
| "num_mul NegInf (Fin b) = (if b = 0 then NaN else if 0 < b then NegInf else PosInf)"
| "num_mul PosInf PosInf = PosInf"
| "num_mul NegInf NegInf = PosInf"
| "num_mul x y = NegInf"

fun num_add :: "number \<Rightarrow> number \<Rightarrow> number" where
  "num_add (Fin a) (Fin b) = Fin (a + b)"
| "num_add NaN y = NaN"
| "num_add x NaN = NaN"
| "num_add PosInf NegInf = NaN"
| "num_add NegInf PosInf = NaN"
| "num_add (Fin a) y = y"
| "num_add x y = x"

fun num_neg :: "number \<Rightarrow> number" where
  "num_neg (Fin a) = Fin (- a)"
| "num_neg NaN = NaN"
| "num_neg PosInf = NegInf"
| "num_neg NegInf = PosInf"

definition num_sub :: "number \<Rightarrow> number \<Rightarrow> number" where
  "num_sub x y = num_add x (num_neg y)"

text \<open>\<open>x > y\<close> and \<open>x >= y\<close> on numbers: every comparison with \<open>NaN\<close> is false.\<close>

fun num_gt :: "number \<Rightarrow> number \<Rightarrow> bool" where
  "num_gt (Fin a) (Fin b) = (b < a)"
| "num_gt NaN y = False"
| "num_gt x NaN = False"
| "num_gt PosInf PosInf = False"
| "num_gt PosInf y = True"
| "num_gt x PosInf = False"
| "num_gt NegInf y = False"
| "num_gt x NegInf = True"

fun num_ge :: "number \<Rightarrow> number \<Rightarrow> bool" where
  "num_ge NaN y = False"
| "num_ge x NaN = False"
| "num_ge x y = (x = y \<or> num_gt x y)"

definition of_count :: "nat \<Rightarrow> number" where
  "of_count n = Fin (of_nat n)"

subsection \<open>Strings\<close>

text \<open>
  \<open>String.prototype.trim\<close> strips white space and line terminators at both ends.
  A \<open>string\<close> here is a list of 8-bit characters, so the white space characters are
  the ones below \<open>0x100\<close>: tab, line feed, vertical tab, form feed, carriage return,
  space and no-break space.
\<close>

definition isWhiteSpace :: "char \<Rightarrow> bool" where
  "isWhiteSpace c = (c \<in> set [CHR 0x09, CHR 0x0A, CHR 0x0B, CHR 0x0C, CHR 0x0D, CHR 0x20, CHR 0xA0])"

definition trim :: "string \<Rightarrow> string" where
  "trim s = rev (dropWhile isWhiteSpace (rev (dropWhile isWhiteSpace s)))"

text \<open>
  The test \<open>deal[f] && deal[f].trim() !== ""\<close> on a field of type \<open>string | null\<close>:
  \<open>null\<close> and the empty string are falsy.
\<close>

definition reached :: "string option \<Rightarrow> bool" where
  "reached f = (case f of None \<Rightarrow> False | Some s \<Rightarrow> s \<noteq> [] \<and> trim s \<noteq> [])"

subsection \<open>Objects used as dictionaries\<close>

text \<open>
  The reducers start from the literal \<open>{}\<close> and index it with data. Such an object
  keeps its own properties in insertion order, and a key it does not own is looked up
  in \<open>Object.prototype\<close>, where twelve names are defined.
\<close>

type_synonym 'v obj = "(string \<times> 'v) list"

definition Object_prototype_keys :: "string list" where
  "Object_prototype_keys =
     [''constructor'', ''__proto__'', ''hasOwnProperty'', ''isPrototypeOf'',
      ''propertyIsEnumerable'', ''toLocaleString'', ''toString'', ''valueOf'',
      ''__defineGetter__'', ''__defineSetter__'', ''__lookupGetter__'', ''__lookupSetter__'']"

datatype 'v property = Own 'v | Inherited | Undefined

definition get_prop :: "'v obj \<Rightarrow> string \<Rightarrow> 'v property" where
  "get_prop acc k =
     (case map_of acc k of
        Some v \<Rightarrow> Own v
      | None \<Rightarrow> if k \<in> set Object_prototype_keys then Inherited else Undefined)"

fun set_prop :: "'v obj \<Rightarrow> string \<Rightarrow> 'v \<Rightarrow> 'v obj" where
  "set_prop [] k v = [(k, v)]"
| "set_prop ((k', v') # rest) k v =
     (if k' = k then (k, v) # rest else (k', v') # set_prop rest k v)"

text \<open>
  \<open>Object.entries\<close> lists the own properties: first the keys that are array indices
  (canonical decimal numerals below \<open>2^32 - 1\<close>) in ascending numeric order, then the
  other keys in insertion order.
\<close>

definition isDigit :: "char \<Rightarrow> bool" where
  "isDigit c = ((48::nat) \<le> of_char c \<and> of_char c \<le> (57::nat))"

definition digit_val :: "char \<Rightarrow> nat" where
  "digit_val c = of_char c - 48"

definition decimal_val :: "string \<Rightarrow> nat" where
  "decimal_val s = foldl (\<lambda>n c. 10 * n + digit_val c) 0 s"

definition array_index :: "string \<Rightarrow> nat option" where
  "array_index s =
     (if s \<noteq> [] \<and> list_all isDigit s \<and> (s = ''0'' \<or> hd s \<noteq> CHR ''0'')
         \<and> length s \<le> 10 \<and> int (decimal_val s) < 4294967295
      then Some (decimal_val s) else None)"

definition Object_entries :: "'v obj \<Rightarrow> (string \<times> 'v) list" where
  "Object_entries acc =
     sort_key (\<lambda>(k, v). case array_index k of Some i \<Rightarrow> i | None \<Rightarrow> 0)
         (filter (\<lambda>(k, v). array_index k \<noteq> None) acc)
       @ filter (\<lambda>(k, v). array_index k = None) acc"

subsection \<open>Errors and reducers\<close>

text \<open>
  An exception ends the computation of a memoised value; it is the \<open>Inl\<close> branch of the
  result. \<open>TypeError\<close>: a method is called on \<open>undefined\<close>. \<open>RangeError\<close>:
  \<open>toISOString\<close> is called on an invalid date.
\<close>

datatype error = TypeError | RangeError

fun reduce :: "('a \<Rightarrow> 'b \<Rightarrow> error + 'a) \<Rightarrow> 'b list \<Rightarrow> 'a \<Rightarrow> error + 'a" where
  "reduce f [] acc = Inr acc"
| "reduce f (x # xs) acc =
     (case f acc x of Inl e \<Rightarrow> Inl e | Inr acc' \<Rightarrow> reduce f xs acc')"

subsection \<open>Sorting with a comparator\<close>

text \<open>
  \<open>Array.prototype.sort\<close> is stable, and an element \<open>x\<close> that precedes \<open>y\<close> is moved
  behind it only when the comparator's value at \<open>(x, y)\<close> is positive (\<open>NaN\<close> counts as
  zero). For a comparator that is a consistent order this fixes the result; it is
  computed here by stable insertion from the right.
\<close>

fun insert_by :: "('a \<Rightarrow> 'a \<Rightarrow> number) \<Rightarrow> 'a \<Rightarrow> 'a list \<Rightarrow> 'a list" where
  "insert_by cmp x [] = [x]"
| "insert_by cmp x (y # ys) =
     (if num_gt (cmp x y) (Fin 0) then y # insert_by cmp x ys else x # y # ys)"

definition Array_sort :: "('a \<Rightarrow> 'a \<Rightarrow> number) \<Rightarrow> 'a list \<Rightarrow> 'a list" where
  "Array_sort cmp xs = foldr (insert_by cmp) xs []"

section \<open>Deals and broker performance\<close>

text \<open>
  One record for the \<open>Deal\<close> objects of all pages: they are the same stored JSON.
  \<open>deal_value\<close> is \<open>None\<close> when the number is missing or \<open>NaN\<close>; a field of type
  \<open>string | null\<close> or an optional field is a \<open>string option\<close>. The stage fields
  \<open>"1. Application"\<close> to \<open>"6. Settled"\<close>, \<open>"2025 Settlement"\<close>, \<open>"2024 Settlement"\<close> and
  the flag \<open>"From Rednote?"\<close> get names that are identifiers.
\<close>

record Deal =
  deal_id :: string
  deal_name :: string
  broker_name :: string
  deal_value :: "rat option"
  Application_1 :: "string option"
  Assessment_2 :: "string option"
  Approval_3 :: "string option"
  Loan_Document_4 :: "string option"
  Settlement_Queue_5 :: "string option"
  Settled_6 :: "string option"
  Settlement_2025 :: "string option"
  Settlement_2024 :: "string option"
  status :: string
  latest_date :: "string option"
  created_date :: "string option"
  From_Rednote :: string

record BrokerPerformance =
  brokerName :: string
  totalDeals :: nat
  settledDeals :: nat
  settledRate :: number
  settledValue :: rat
  avgDealValue :: number
  conversionRate :: number
  convertedDeals :: nat

datatype mode = settled_mode | conversion_mode

text \<open>
  The accumulator entry of the \<open>brokerStats\<close> reducer; its field \<open>settledValue\<close> is
  \<open>settledSum\<close> here.
\<close>

record BrokerStats =
  deals :: "Deal list"
  settled :: nat
  settledSum :: rat
  converted :: nat

definition isSettled :: "Deal \<Rightarrow> bool" where
  "isSettled deal = reached (Settled_6 deal)"

definition isConverted :: "Deal \<Rightarrow> bool" where
  "isConverted deal =
     (reached (Application_1 deal) \<or> reached (Assessment_2 deal) \<or> reached (Approval_3 deal)
      \<or> reached (Loan_Document_4 deal) \<or> reached (Settlement_Queue_5 deal)
      \<or> reached (Settled_6 deal) \<or> reached (Settlement_2025 deal)
      \<or> reached (Settlement_2024 deal))"

text \<open>\<open>deal.deal_value || 0\<close>\<close>

definition value_or_0 :: "rat option \<Rightarrow> rat" where
  "value_or_0 v = (case v of None \<Rightarrow> 0 | Some x \<Rightarrow> x)"

text \<open>The body of the reducer after the entry for the broker exists.\<close>

definition tally :: "Deal \<Rightarrow> BrokerStats \<Rightarrow> BrokerStats" where
  "tally deal st =
     (let st1 = st\<lparr>deals := deals st @ [deal]\<rparr>;
          st2 = (if isSettled deal
                 then st1\<lparr>settled := settled st1 + 1,
                          settledSum := settledSum st1 + value_or_0 (deal_value deal)\<rparr>
                 else st1)
      in if isConverted deal then st2\<lparr>converted := converted st2 + 1\<rparr> else st2)"

definition emptyStats :: BrokerStats where
  "emptyStats = \<lparr>deals = [], settled = 0, settledSum = 0, converted = 0\<rparr>"

text \<open>
  One step of \<open>reduce\<close>. A broker name that \<open>Object.prototype\<close> defines finds an
  inherited value, no entry is created, and \<open>acc[brokerName].deals.push\<close> raises.
\<close>

definition brokerStats_step :: "BrokerStats obj \<Rightarrow> Deal \<Rightarrow> error + BrokerStats obj" where
  "brokerStats_step acc deal =
     (let brokerName = broker_name deal in
      case get_prop acc brokerName of
        Inherited \<Rightarrow> Inl TypeError
      | Undefined \<Rightarrow> Inr (set_prop acc brokerName (tally deal emptyStats))
      | Own st \<Rightarrow> Inr (set_prop acc brokerName (tally deal st)))"

definition percentage :: "nat \<Rightarrow> nat \<Rightarrow> number" where
  "percentage part whole =
     (if 0 < whole then num_mul (num_div (of_count part) (of_count whole)) (Fin 100) else Fin 0)"

definition toPerformance :: "string \<times> BrokerStats \<Rightarrow> BrokerPerformance" where
  "toPerformance e =
     (case e of (name, stats) \<Rightarrow>
        let count = length (deals stats) in
        \<lparr>brokerName = name,
         totalDeals = count,
         settledDeals = settled stats,
         settledRate = percentage (settled stats) count,
         settledValue = settledSum stats,
         avgDealValue = (if 0 < settled stats
                         then num_div (Fin (settledSum stats)) (of_count (settled stats))
                         else Fin 0),
         conversionRate = percentage (converted stats) count,
         convertedDeals = converted stats\<rparr>)"

definition compareBrokers :: "mode \<Rightarrow> BrokerPerformance \<Rightarrow> BrokerPerformance \<Rightarrow> number" where
  "compareBrokers m a b =
     (case m of
        settled_mode \<Rightarrow> Fin (settledValue b - settledValue a)
      | conversion_mode \<Rightarrow> num_sub (conversionRate b) (conversionRate a))"

text \<open>\<open>brokerPerformance\<close> of the page with the analysis mode.\<close>

definition brokerPerformance :: "Deal list \<Rightarrow> mode \<Rightarrow> error + BrokerPerformance list" where
  "brokerPerformance filteredDeals selectedMode =
     (if filteredDeals = [] then Inr []
      else case reduce brokerStats_step filteredDeals [] of
             Inl e \<Rightarrow> Inl e
           | Inr brokerStats \<Rightarrow>
               Inr (Array_sort (compareBrokers selectedMode)
                      (map toPerformance (Object_entries brokerStats))))"

text \<open>\<open>brokerPerformance\<close> of the page with two rate thresholds: no mode, one sort key.\<close>

definition brokerPerformance2 :: "Deal list \<Rightarrow> error + BrokerPerformance list" where
  "brokerPerformance2 ds =
     (if ds = [] then Inr []
      else case reduce brokerStats_step ds [] of
             Inl e \<Rightarrow> Inl e
           | Inr brokerStats \<Rightarrow>
               Inr (Array_sort (\<lambda>a b. Fin (settledValue b - settledValue a))
                      (map toPerformance (Object_entries brokerStats))))"

text \<open>The list that \<open>.sort\<close> receives: the mapped entries, before they are ordered.\<close>

definition brokerEntries :: "Deal list \<Rightarrow> error + BrokerPerformance list" where
  "brokerEntries ds =
     (case reduce brokerStats_step ds [] of
        Inl e \<Rightarrow> Inl e
      | Inr brokerStats \<Rightarrow> Inr (map toPerformance (Object_entries brokerStats)))"

text \<open>A rate that is a finite number between 0 and 100.\<close>

definition is_percent :: "number \<Rightarrow> bool" where
  "is_percent x = (case x of Fin r \<Rightarrow> 0 \<le> r \<and> r \<le> 100 | _ \<Rightarrow> False)"

text \<open>The rational that a finite number holds.\<close>

definition rate_of :: "number \<Rightarrow> rat" where
  "rate_of x = (case x of Fin r \<Rightarrow> r | _ \<Rightarrow> 0)"

definition filteredBrokers :: "BrokerPerformance list \<Rightarrow> rat \<Rightarrow> BrokerPerformance list" where
  "filteredBrokers perf minDealsThreshold =
     filter (\<lambda>broker. minDealsThreshold \<le> of_nat (totalDeals broker)) perf"


text \<open>The invariant of every entry of the \<open>brokerStats\<close> accumulator.\<close>

definition stats_ok :: "BrokerStats \<Rightarrow> bool" where
  "stats_ok st = (settled st \<le> converted st \<and> converted st \<le> length (deals st))"

section \<open>Dates\<close>

text \<open>
  A \<open>Date\<close> holds a time value: milliseconds since 1970-01-01T00:00Z, at most
  \<open>8.64e15\<close> in absolute value, or \<open>NaN\<close> (an invalid date, \<open>None\<close> here).
  The local time zone is a fixed offset \<open>tzo\<close>, in milliseconds east of UTC; daylight
  saving changes are left out.
\<close>

type_synonym date = "int option"

definition msPerDay :: int where
  "msPerDay = 86400000"

definition maxTime :: int where
  "maxTime = 8640000000000000"

definition TimeClip :: "int \<Rightarrow> date" where
  "TimeClip t = (if \<bar>t\<bar> \<le> maxTime then Some t else None)"

text \<open>Day number (days since 1970-01-01) to year, month and day of the month, and back.\<close>

definition civil_from_days :: "int \<Rightarrow> int \<times> int \<times> int" where
  "civil_from_days z =
     (let z' = z + 719468;
          era = z' div 146097;
          doe = z' mod 146097;
          yoe = (doe - doe div 1460 + doe div 36524 - doe div 146096) div 365;
          doy = doe - (365 * yoe + yoe div 4 - yoe div 100);
          mp = (5 * doy + 2) div 153;
          d = doy - (153 * mp + 2) div 5 + 1;
          m = (if mp < 10 then mp + 3 else mp - 9);
          y = yoe + era * 400
      in (if m \<le> 2 then y + 1 else y, m, d))"

definition days_from_civil :: "int \<Rightarrow> int \<Rightarrow> int \<Rightarrow> int" where
  "days_from_civil y m d =
     (let y' = (if m \<le> 2 then y - 1 else y);
          era = y' div 400;
          yoe = y' mod 400;
          doy = (153 * (if 2 < m then m - 3 else m + 9) + 2) div 5 + d - 1;
          doe = yoe * 365 + yoe div 4 - yoe div 100 + doy
      in era * 146097 + doe - 719468)"

text \<open>
  The same computation as \<open>civil_from_days\<close>, one function for each local variable,
  so that each intermediate value is computed once when a day number is evaluated.
\<close>

definition civil_of_m :: "int \<Rightarrow> int \<Rightarrow> int \<Rightarrow> int \<times> int \<times> int" where
  "civil_of_m y d m = (if m \<le> 2 then y + 1 else y, m, d)"

definition civil_of_mp :: "int \<Rightarrow> int \<Rightarrow> int \<Rightarrow> int \<times> int \<times> int" where
  "civil_of_mp y doy mp =
     civil_of_m y (doy - (153 * mp + 2) div 5 + 1) (if mp < 10 then mp + 3 else mp - 9)"

definition civil_of_doy :: "int \<Rightarrow> int \<Rightarrow> int \<times> int \<times> int" where
  "civil_of_doy y doy = civil_of_mp y doy ((5 * doy + 2) div 153)"

definition civil_of_yoe :: "int \<Rightarrow> int \<Rightarrow> int \<Rightarrow> int \<times> int \<times> int" where
  "civil_of_yoe era doe yoe =
     civil_of_doy (yoe + era * 400) (doe - (365 * yoe + yoe div 4 - yoe div 100))"

definition civil_of_doe :: "int \<Rightarrow> int \<Rightarrow> int \<times> int \<times> int" where
  "civil_of_doe era doe =
     civil_of_yoe era doe ((doe - doe div 1460 + doe div 36524 - doe div 146096) div 365)"

text \<open>Decimal numerals, and \<open>padStart\<close> with zeros.\<close>

definition digit_char :: "nat \<Rightarrow> char" where
  "digit_char n = char_of (48 + n)"

fun digits :: "nat \<Rightarrow> string" where
  "digits n = (if n < 10 then [digit_char n] else digits (n div 10) @ [digit_char (n mod 10)])"

declare digits.simps [simp del]

definition pad0 :: "nat \<Rightarrow> string \<Rightarrow> string" where
  "pad0 w s = replicate (w - length s) (CHR ''0'') @ s"

text \<open>\<open>String(n)\<close> for an integer \<open>n\<close>.\<close>

definition int_toString :: "int \<Rightarrow> string" where
  "int_toString n = (if n < 0 then ''-'' @ digits (nat (- n)) else digits (nat n))"

text \<open>
  \<open>d.toISOString().split('T')[0]\<close> for a valid date: the UTC calendar day, the year
  with four digits, or with a sign and six digits outside 0 to 9999.
\<close>

definition toISODate :: "int \<Rightarrow> string" where
  "toISODate t =
     (case civil_from_days (t div msPerDay) of (y, m, d) \<Rightarrow>
        (if 0 \<le> y \<and> y \<le> 9999 then pad0 4 (digits (nat y))
         else (if y < 0 then ''-'' else ''+'') @ pad0 6 (digits (nat \<bar>y\<bar>)))
        @ ''-'' @ pad0 2 (digits (nat m)) @ ''-'' @ pad0 2 (digits (nat d)))"

text \<open>
  \<open>new Date(s)\<close> for a string is the host's parser and a parameter \<open>parse\<close> of what
  follows. The standard fixes it on the date-only form \<open>YYYY-MM-DD\<close>: midnight UTC of
  that day. \<open>parseDateOnly\<close> accepts this form alone and serves as the host's parser in
  the examples.
\<close>

definition parseDateOnly :: "string \<Rightarrow> date" where
  "parseDateOnly s =
     (if length s = 10 \<and> s ! 4 = CHR ''-'' \<and> s ! 7 = CHR ''-''
         \<and> list_all isDigit (take 4 s @ take 2 (drop 5 s) @ drop 8 s)
      then (let y = int (decimal_val (take 4 s));
                m = int (decimal_val (take 2 (drop 5 s)));
                d = int (decimal_val (drop 8 s))
            in if civil_from_days (days_from_civil y m d) = (y, m, d)
               then TimeClip (days_from_civil y m d * msPerDay) else None)
      else None)"

text \<open>Local-time getters and setters, for the fixed offset \<open>tzo\<close>.\<close>

definition getDay :: "int \<Rightarrow> int \<Rightarrow> int" where
  "getDay tzo t = ((t + tzo) div msPerDay + 4) mod 7"

definition getFullYear :: "int \<Rightarrow> int \<Rightarrow> int" where
  "getFullYear tzo t = fst (civil_from_days ((t + tzo) div msPerDay))"

text \<open>
  \<open>x.setDate(x.getDate() + n)\<close>: the local calendar day moves by \<open>n\<close> and the time of
  day stays, so the time value moves by \<open>n\<close> days; the result is clipped.
\<close>

definition addDays :: "int \<Rightarrow> date \<Rightarrow> date" where
  "addDays n x = (case x of None \<Rightarrow> None | Some t \<Rightarrow> TimeClip (t + n * msPerDay))"

text \<open>\<open>x.setHours(0, 0, 0, 0)\<close>: local midnight of the local day.\<close>

definition setHours0 :: "int \<Rightarrow> date \<Rightarrow> date" where
  "setHours0 tzo x =
     (case x of None \<Rightarrow> None
      | Some t \<Rightarrow> TimeClip (((t + tzo) div msPerDay) * msPerDay - tzo))"

text \<open>\<open>new Date(s).getFullYear().toString()\<close>\<close>

definition yearString :: "(string \<Rightarrow> date) \<Rightarrow> int \<Rightarrow> string \<Rightarrow> string" where
  "yearString parse tzo s =
     (case parse s of None \<Rightarrow> ''NaN'' | Some t \<Rightarrow> int_toString (getFullYear tzo t))"

section \<open>The deal filter\<close>

definition filteredDeals ::
  "(string \<Rightarrow> date) \<Rightarrow> int \<Rightarrow> Deal list \<Rightarrow> string \<Rightarrow> string \<Rightarrow> Deal list" where
  "filteredDeals parse tzo ds selectedBroker selectedYear =
     (let filtered = (if selectedBroker \<noteq> ''all''
                      then filter (\<lambda>deal. broker_name deal = selectedBroker) ds else ds)
      in if selectedYear \<noteq> ''all''
         then filter (\<lambda>deal. case latest_date deal of
                                None \<Rightarrow> False
                              | Some s \<Rightarrow> s \<noteq> [] \<and> yearString parse tzo s = selectedYear)
                filtered
         else filtered)"

text \<open>A deal that carries a \<open>latest_date\<close>: neither \<open>null\<close> nor absent nor empty.\<close>

definition has_latest_date :: "Deal \<Rightarrow> bool" where
  "has_latest_date deal = (case latest_date deal of None \<Rightarrow> False | Some s \<Rightarrow> s \<noteq> [])"


section \<open>The weekly threshold chart\<close>

text \<open>
  An entry of \<open>weeklyGroups\<close>. Its fields \<open>deals\<close>, \<open>totalDeals\<close>, \<open>settledDeals\<close> and
  \<open>convertedDeals\<close> are \<open>weekDeals\<close>, \<open>weekTotal\<close>, \<open>weekSettled\<close> and
  \<open>weekConverted\<close> here.
\<close>

record WeekGroup =
  weekStart :: int
  weekDeals :: "Deal list"
  weekTotal :: nat
  weekSettled :: nat
  weekConverted :: nat

text \<open>
  The start of the week of a valid date: \<open>getDay\<close>, then \<open>setDate\<close> back to Monday
  (six days back from a Sunday), then \<open>setHours(0, 0, 0, 0)\<close>, all in local time.
\<close>

definition weekStartOf :: "int \<Rightarrow> int \<Rightarrow> date" where
  "weekStartOf tzo t =
     (let day = getDay tzo t
      in setHours0 tzo (addDays (- day + (if day = 0 then - 6 else 1)) (Some t)))"

definition weekTally :: "Deal \<Rightarrow> WeekGroup \<Rightarrow> WeekGroup" where
  "weekTally deal g =
     (let g1 = g\<lparr>weekDeals := weekDeals g @ [deal], weekTotal := weekTotal g + 1\<rparr>;
          g2 = (if isSettled deal then g1\<lparr>weekSettled := weekSettled g1 + 1\<rparr> else g1)
      in if isConverted deal then g2\<lparr>weekConverted := weekConverted g2 + 1\<rparr> else g2)"

definition emptyWeek :: "int \<Rightarrow> WeekGroup" where
  "emptyWeek ws =
     \<lparr>weekStart = ws, weekDeals = [], weekTotal = 0, weekSettled = 0, weekConverted = 0\<rparr>"

text \<open>
  The key of the week of a deal: \<open>Inr None\<close> when the deal is skipped (no
  \<open>latest_date\<close>, or one that does not parse), \<open>Inl RangeError\<close> when the week start is
  not a valid date and \<open>toISOString\<close> raises.
\<close>

definition weekKeyOf ::
  "(string \<Rightarrow> date) \<Rightarrow> int \<Rightarrow> Deal \<Rightarrow> error + (int \<times> string) option" where
  "weekKeyOf parse tzo deal =
     (case latest_date deal of
        None \<Rightarrow> Inr None
      | Some s \<Rightarrow>
          if s = [] then Inr None
          else (case parse s of
                  None \<Rightarrow> Inr None
                | Some t \<Rightarrow>
                    (case weekStartOf tzo t of
                       None \<Rightarrow> Inl RangeError
                     | Some ws \<Rightarrow> Inr (Some (ws, toISODate ws)))))"

definition weeklyGroups_step ::
  "(string \<Rightarrow> date) \<Rightarrow> int \<Rightarrow> WeekGroup obj \<Rightarrow> Deal \<Rightarrow> error + WeekGroup obj" where
  "weeklyGroups_step parse tzo acc deal =
     (case weekKeyOf parse tzo deal of
        Inl e \<Rightarrow> Inl e
      | Inr None \<Rightarrow> Inr acc
      | Inr (Some (ws, weekKey)) \<Rightarrow>
          (case get_prop acc weekKey of
             Inherited \<Rightarrow> Inl TypeError
           | Undefined \<Rightarrow> Inr (set_prop acc weekKey (weekTally deal (emptyWeek ws)))
           | Own g \<Rightarrow> Inr (set_prop acc weekKey (weekTally deal g))))"

text \<open>An element of \<open>weeklyData\<close>; the source's field names carry the prefix \<open>w\<close>.\<close>

record WeekRate =
  wTotalDeals :: nat
  wRate :: number
  wSettledRate :: number
  wConversionRate :: number
  wSettledDeals :: nat
  wConvertedDeals :: nat
  isAboveThreshold :: bool

definition weekRate :: "mode \<Rightarrow> nat \<Rightarrow> WeekGroup \<Rightarrow> WeekRate" where
  "weekRate selectedMode threshold data =
     (let sRate = percentage (weekSettled data) (weekTotal data);
          cRate = percentage (weekConverted data) (weekTotal data)
      in \<lparr>wTotalDeals = weekTotal data,
          wRate = (case selectedMode of settled_mode \<Rightarrow> sRate | conversion_mode \<Rightarrow> cRate),
          wSettledRate = sRate,
          wConversionRate = cRate,
          wSettledDeals = weekSettled data,
          wConvertedDeals = weekConverted data,
          isAboveThreshold = (threshold \<le> weekTotal data)\<rparr>)"

definition weeklyData :: "mode \<Rightarrow> nat \<Rightarrow> WeekGroup obj \<Rightarrow> WeekRate list" where
  "weeklyData selectedMode threshold weeklyGroups =
     map (\<lambda>(weekKey, data). weekRate selectedMode threshold data) (Object_entries weeklyGroups)"

text \<open>\<open>ws.reduce((sum, w) => sum + f(w), 0)\<close> for numbers.\<close>

definition sum_numbers :: "number list \<Rightarrow> number" where
  "sum_numbers xs = foldl num_add (Fin 0) xs"

text \<open>
  \<open>parseFloat(x.toFixed(1))\<close>: the nearest multiple of one tenth, the larger one at a
  tie, computed on the absolute value; values from \<open>10^21\<close> on and values that are not
  finite come back unchanged.
\<close>

definition toFixed1 :: "number \<Rightarrow> number" where
  "toFixed1 x =
     (case x of
        Fin r \<Rightarrow>
          if 10 ^ 21 \<le> \<bar>r\<bar> then Fin r
          else if r < 0 then Fin (- (of_int \<lfloor>(- r) * 10 + 1 / 2\<rfloor> / 10))
          else Fin (of_int \<lfloor>r * 10 + 1 / 2\<rfloor> / 10)
      | _ \<Rightarrow> x)"

text \<open>An element of the chart; the source's field \<open>totalDeals\<close> is \<open>sumDeals\<close> here.\<close>

record ChartCategory =
  category :: string
  rate :: number
  weekCount :: nat
  sumDeals :: nat
  avgSettledRate :: number
  avgConversionRate :: number

definition chartEntry :: "string \<Rightarrow> nat \<Rightarrow> number \<Rightarrow> WeekRate list \<Rightarrow> ChartCategory" where
  "chartEntry sign threshold avg ws =
     \<lparr>category = sign @ '' '' @ digits threshold,
      rate = toFixed1 avg,
      weekCount = length ws,
      sumDeals = foldl (\<lambda>sum w. sum + wTotalDeals w) 0 ws,
      avgSettledRate = num_div (sum_numbers (map wSettledRate ws)) (of_count (length ws)),
      avgConversionRate = num_div (sum_numbers (map wConversionRate ws)) (of_count (length ws))\<rparr>"

definition thresholdCategories :: "nat \<Rightarrow> WeekRate list \<Rightarrow> ChartCategory list" where
  "thresholdCategories threshold wd =
     (let aboveThresholdWeeks = filter isAboveThreshold wd;
          belowThresholdWeeks = filter (\<lambda>w. \<not> isAboveThreshold w) wd;
          avgAboveThreshold =
            (if 0 < length aboveThresholdWeeks
             then num_div (sum_numbers (map wRate aboveThresholdWeeks))
                    (of_count (length aboveThresholdWeeks))
             else Fin 0);
          avgBelowThreshold =
            (if 0 < length belowThresholdWeeks
             then num_div (sum_numbers (map wRate belowThresholdWeeks))
                    (of_count (length belowThresholdWeeks))
             else Fin 0)
      in (if 0 < length belowThresholdWeeks
          then [chartEntry ''<'' threshold avgBelowThreshold belowThresholdWeeks] else [])
         @ (if 0 < length aboveThresholdWeeks
            then [chartEntry ''>='' threshold avgAboveThreshold aboveThresholdWeeks] else []))"

text \<open>\<open>chartData\<close> of the broker page.\<close>

definition chartData ::
  "(string \<Rightarrow> date) \<Rightarrow> int \<Rightarrow> Deal list \<Rightarrow> string \<Rightarrow> mode \<Rightarrow> nat
     \<Rightarrow> error + ChartCategory list" where
  "chartData parse tzo filtered selectedBroker selectedMode threshold =
     (if selectedBroker = ''all'' \<or> filtered = [] then Inr []
      else let brokerDeals = filter (\<lambda>deal. broker_name deal = selectedBroker) filtered
           in if brokerDeals = [] then Inr []
              else case reduce (weeklyGroups_step parse tzo) brokerDeals [] of
                     Inl e \<Rightarrow> Inl e
                   | Inr weeklyGroups \<Rightarrow>
                       Inr (thresholdCategories threshold
                              (weeklyData selectedMode threshold weeklyGroups)))"

text \<open>
  What the statements about the chart compare with: the rate of one week as a rational,
  and the arithmetic mean of a list of rationals.
\<close>

definition week_rate :: "nat \<Rightarrow> nat \<Rightarrow> rat" where
  "week_rate part whole = (if whole = 0 then 0 else of_nat part / of_nat whole * 100)"

definition mean :: "rat list \<Rightarrow> rat" where
  "mean xs = sum_list xs / of_nat (length xs)"

definition mode_rate :: "mode \<Rightarrow> WeekGroup \<Rightarrow> rat" where
  "mode_rate m g =
     (case m of
        settled_mode \<Rightarrow> week_rate (weekSettled g) (weekTotal g)
      | conversion_mode \<Rightarrow> week_rate (weekConverted g) (weekTotal g))"


text \<open>
  The weeks below the threshold and the weeks at or above it, and the category that the
  chart is to show for a list of weeks: the number of weeks, the sum of their deals, and
  the means of their own rates (the displayed rate rounded to one decimal).
\<close>

definition weeks_below :: "nat \<Rightarrow> WeekGroup obj \<Rightarrow> WeekGroup list" where
  "weeks_below threshold weeklyGroups =
     filter (\<lambda>g. weekTotal g < threshold) (map snd (Object_entries weeklyGroups))"

definition weeks_at_or_above :: "nat \<Rightarrow> WeekGroup obj \<Rightarrow> WeekGroup list" where
  "weeks_at_or_above threshold weeklyGroups =
     filter (\<lambda>g. threshold \<le> weekTotal g) (map snd (Object_entries weeklyGroups))"

definition category_of :: "mode \<Rightarrow> string \<Rightarrow> WeekGroup list \<Rightarrow> ChartCategory" where
  "category_of m label gs =
     \<lparr>category = label,
      rate = toFixed1 (Fin (mean (map (mode_rate m) gs))),
      weekCount = length gs,
      sumDeals = sum_list (map weekTotal gs),
      avgSettledRate = Fin (mean (map (\<lambda>g. week_rate (weekSettled g) (weekTotal g)) gs)),
      avgConversionRate =
        Fin (mean (map (\<lambda>g. week_rate (weekConverted g) (weekTotal g)) gs))\<rparr>"

section \<open>Rolling averages of the lead-source pages\<close>

record 'a ChartDataPoint =
  date :: string
  settledDeals30DayAvg :: 'a
  rednoteDeals30DayAvg :: 'a

text \<open>\<open>new Set\<close>, \<open>Set.prototype.add\<close> and \<open>Array.from(new Set(xs))\<close>: insertion order, no repeats.\<close>

definition Set_add :: "string list \<Rightarrow> string \<Rightarrow> string list" where
  "Set_add s x = (if x \<in> set s then s else s @ [x])"

definition Set_from :: "string list \<Rightarrow> string list" where
  "Set_from xs = foldl Set_add [] xs"

subsection \<open>The page that reads the uploaded deals: fixed divisor\<close>

text \<open>\<open>a <= b\<close> on two dates compares their time values; it is false when one is invalid.\<close>

definition date_le :: "date \<Rightarrow> date \<Rightarrow> bool" where
  "date_le a b = (case (a, b) of (Some x, Some y) \<Rightarrow> x \<le> y | _ \<Rightarrow> False)"

definition calculate30DayRollingAvg ::
  "(string \<Rightarrow> date) \<Rightarrow> nat obj \<Rightarrow> string \<Rightarrow> string list \<Rightarrow> number" where
  "calculate30DayRollingAvg parse dateValueMap targetDate allAvailableDates =
     (let current = parse targetDate;
          thirtyDaysBefore =
            (case current of None \<Rightarrow> None
             | Some t \<Rightarrow> TimeClip (t - 30 * 24 * 60 * 60 * 1000))
      in if length allAvailableDates = 0 then Fin 0
         else num_div
                (of_count
                   (foldl (\<lambda>sum (d, count).
                             if date_le thirtyDaysBefore (parse d) \<and> date_le (parse d) current
                             then sum + count else sum)
                      0 (Object_entries dateValueMap)))
                (Fin 30))"

text \<open>\<open>deal.latest_date || deal.created_date\<close>, then the test \<open>date && date.trim() !== ''\<close>.\<close>

definition bucketDate :: "Deal \<Rightarrow> string option" where
  "bucketDate deal =
     (let d = (case latest_date deal of
                 None \<Rightarrow> created_date deal
               | Some s \<Rightarrow> if s = [] then created_date deal else Some s)
      in case d of None \<Rightarrow> None | Some s \<Rightarrow> if s \<noteq> [] \<and> trim s \<noteq> [] then Some s else None)"

text \<open>
  The reducer that collects the \<open>deal_id\<close>s of each date in a \<open>Set\<close>. A date that
  \<open>Object.prototype\<close> defines finds an inherited value without \<open>add\<close>, and the call raises.
\<close>

definition idsByDate_step :: "string list obj \<Rightarrow> Deal \<Rightarrow> error + string list obj" where
  "idsByDate_step acc deal =
     (case bucketDate deal of
        None \<Rightarrow> Inr acc
      | Some d \<Rightarrow>
          (case get_prop acc d of
             Inherited \<Rightarrow> Inl TypeError
           | Undefined \<Rightarrow> Inr (set_prop acc d (Set_add [] (deal_id deal)))
           | Own ids \<Rightarrow> Inr (set_prop acc d (Set_add ids (deal_id deal)))))"

text \<open>\<open>settledCountByDate\<close> and \<open>rednoteCountByDate\<close>: the sizes of the sets.\<close>

definition countByDate :: "(Deal \<Rightarrow> bool) \<Rightarrow> Deal list \<Rightarrow> error + nat obj" where
  "countByDate pred ds =
     (case reduce idsByDate_step (filter pred ds) [] of
        Inl e \<Rightarrow> Inl e
      | Inr byDate \<Rightarrow> Inr (map (\<lambda>(d, dealIds). (d, length dealIds)) (Object_entries byDate)))"

definition statusSettled :: "Deal \<Rightarrow> bool" where
  "statusSettled deal = (status deal = ''6. Settled'')"

definition fromRednote :: "Deal \<Rightarrow> bool" where
  "fromRednote deal = (From_Rednote deal = ''Yes'')"

definition chartData_uploaded ::
  "(string \<Rightarrow> date) \<Rightarrow> Deal list \<Rightarrow> error + number ChartDataPoint list" where
  "chartData_uploaded parse ds =
     (if ds = [] then Inr []
      else case countByDate statusSettled ds of
             Inl e \<Rightarrow> Inl e
           | Inr settledCountByDate \<Rightarrow>
               (case countByDate fromRednote ds of
                  Inl e \<Rightarrow> Inl e
                | Inr rednoteCountByDate \<Rightarrow>
                    let allDates = sort (Set_from (List.map_filter bucketDate ds))
                    in if allDates = [] then Inr []
                       else let result =
                                  map (\<lambda>d. \<lparr>date = d,
                                             settledDeals30DayAvg =
                                               calculate30DayRollingAvg parse settledCountByDate d allDates,
                                             rednoteDeals30DayAvg =
                                               calculate30DayRollingAvg parse rednoteCountByDate d allDates\<rparr>)
                                    allDates
                            in Inr (drop (length result - 90) result)))"

text \<open>
  What the statements about the counts and the window compare with: the number of
  distinct \<open>deal_id\<close>s among the selected deals of a date, and the sum of the counts
  whose date lies in the window that ends at the target date.
\<close>

definition distinct_ids :: "(Deal \<Rightarrow> bool) \<Rightarrow> Deal list \<Rightarrow> string \<Rightarrow> nat" where
  "distinct_ids pred ds d =
     card (deal_id ` {deal \<in> set ds. pred deal \<and> bucketDate deal = Some d})"

definition in_window :: "(string \<Rightarrow> date) \<Rightarrow> string \<Rightarrow> string \<Rightarrow> bool" where
  "in_window parse targetDate d =
     (case (parse targetDate, parse d) of
        (Some t, Some u) \<Rightarrow>
          \<bar>t - 30 * msPerDay\<bar> \<le> maxTime \<and> t - 30 * msPerDay \<le> u \<and> u \<le> t
      | _ \<Rightarrow> False)"

definition window_sum :: "(string \<Rightarrow> date) \<Rightarrow> nat obj \<Rightarrow> string \<Rightarrow> nat" where
  "window_sum parse dateValueMap targetDate =
     sum_list (map snd (filter (\<lambda>(d, count). in_window parse targetDate d) dateValueMap))"

subsection \<open>The page with generated sample deals: full window\<close>

text \<open>
  The deals of this page are the ones \<open>generateSampleDeals\<close> makes; the page has no
  other source of deals. \<open>Math.random()\<close> gives a number \<open>r\<close> with \<open>0 \<le> r < 1\<close>. The
  numbers drawn for one deal are a parameter of the generator, one record for each
  index of the loop. (The draw for the field \<open>"From LifeX?"\<close>, and that field and
  \<open>"Lost date"\<close>, which nothing reads, are left out.)
\<close>

typedef random = "{r :: rat. 0 \<le> r \<and> r < 1}"
  by (rule exI[of _ 0]) simp

record Draws =
  dateDraw :: random
  rednoteDraw :: random
  settledDraw :: random
  brokerDraw :: random
  statusDraw :: random
  valueDraw :: random

text \<open>
  \<open>new Date(x)\<close> for a finite number \<open>x\<close>: invalid when \<open>x\<close> is out of range, else the
  time value is \<open>x\<close> without its fraction.
\<close>

definition ToInteger :: "rat \<Rightarrow> int" where
  "ToInteger x = (if x < 0 then \<lceil>x\<rceil> else \<lfloor>x\<rfloor>)"

definition Date_of_number :: "rat \<Rightarrow> date" where
  "Date_of_number x = (if \<bar>x\<bar> \<le> of_int maxTime then Some (ToInteger x) else None)"

definition sampleStatuses :: "string list" where
  "sampleStatuses =
     [''1. Application'', ''2. Assessment'', ''3. Approval'', ''4. Loan Document'',
      ''5. Settlement Queue'', ''Lost'']"

text \<open>
  The body of the loop for the index \<open>i\<close>. \<open>toISOString\<close> raises on an invalid
  \<open>randomDate\<close>.
\<close>

definition sampleDeal :: "int \<Rightarrow> int \<Rightarrow> Draws \<Rightarrow> nat \<Rightarrow> error + Deal" where
  "sampleDeal startDate endDate r i =
     (let randomDate = Date_of_number (of_int startDate
                         + Rep_random (dateDraw r) * of_int (endDate - startDate));
          isRednote = (Rep_random (rednoteDraw r) < 25 / 100);
          isSettled = (Rep_random (settledDraw r) < 15 / 100)
      in case randomDate of
           None \<Rightarrow> Inl RangeError
         | Some t \<Rightarrow>
             Inr \<lparr>deal_id = ''deal_'' @ digits i,
                  deal_name = ''Deal '' @ digits i,
                  broker_name = ''Broker '' @ digits (nat \<lfloor>Rep_random (brokerDraw r) * 15\<rfloor>),
                  deal_value = Some (of_int \<lfloor>Rep_random (valueDraw r) * 1500000\<rfloor>),
                  Application_1 = None, Assessment_2 = None, Approval_3 = None,
                  Loan_Document_4 = None, Settlement_Queue_5 = None, Settled_6 = None,
                  Settlement_2025 = None, Settlement_2024 = None,
                  status = (if isSettled then ''6. Settled''
                            else sampleStatuses ! nat \<lfloor>Rep_random (statusDraw r) * 6\<rfloor>),
                  latest_date = None,
                  created_date = Some (toISODate t),
                  From_Rednote = (if isRednote then ''Yes'' else ''No'')\<rparr>)"

text \<open>\<open>new Date(deal.created_date).getTime()\<close>\<close>

definition createdTime :: "(string \<Rightarrow> date) \<Rightarrow> Deal \<Rightarrow> number" where
  "createdTime parse deal =
     (case created_date deal of
        None \<Rightarrow> NaN
      | Some s \<Rightarrow> (case parse s of None \<Rightarrow> NaN | Some t \<Rightarrow> Fin (of_int t)))"

text \<open>
  The loop \<open>for (let i = 0; i < 2000; i++) deals.push(...)\<close> and the sort by
  \<open>created_date\<close>. With an invalid start or end date the first \<open>toISOString\<close> raises.
\<close>

definition generateSampleDeals :: "(string \<Rightarrow> date) \<Rightarrow> (nat \<Rightarrow> Draws) \<Rightarrow> error + Deal list" where
  "generateSampleDeals parse rnd =
     (case (parse ''2023-01-01'', parse ''2025-01-10'') of
        (Some startDate, Some endDate) \<Rightarrow>
          (case reduce (\<lambda>made i. case sampleDeal startDate endDate (rnd i) i of
                                     Inl e \<Rightarrow> Inl e
                                   | Inr deal \<Rightarrow> Inr (made @ [deal]))
                  [0..<2000] [] of
             Inl e \<Rightarrow> Inl e
           | Inr made \<Rightarrow>
               Inr (Array_sort (\<lambda>a b. num_sub (createdTime parse a) (createdTime parse b)) made))
      | _ \<Rightarrow> Inl RangeError)"

text \<open>
  \<open>loadDeals\<close>: the state \<open>deals\<close> of the page is the generated list, and stays empty
  when the generator raises.
\<close>

definition loadDeals :: "(string \<Rightarrow> date) \<Rightarrow> (nat \<Rightarrow> Draws) \<Rightarrow> Deal list" where
  "loadDeals parse rnd =
     (case generateSampleDeals parse rnd of Inl e \<Rightarrow> [] | Inr sampleDeals \<Rightarrow> sampleDeals)"

text \<open>\<open>dateValueMap[dateStr] || 0\<close>\<close>

definition count_or_0 :: "nat obj \<Rightarrow> string \<Rightarrow> nat" where
  "count_or_0 dateValueMap dateStr =
     (case get_prop dateValueMap dateStr of Own c \<Rightarrow> c | _ \<Rightarrow> 0)"

text \<open>
  The loop \<open>for (d = thirtyDaysBefore; d <= current; d.setDate(d.getDate() + 1))\<close>
  with its two counters.
\<close>

function dayLoop :: "nat obj \<Rightarrow> date \<Rightarrow> date \<Rightarrow> nat \<times> nat \<Rightarrow> nat \<times> nat" where
  "dayLoop dateValueMap current d (acc, dayCount) =
     (case d of
        None \<Rightarrow> (acc, dayCount)
      | Some t \<Rightarrow>
          if date_le (Some t) current
          then dayLoop dateValueMap current (addDays 1 (Some t))
                 (acc + count_or_0 dateValueMap (toISODate t), dayCount + 1)
          else (acc, dayCount))"
  by pat_completeness auto
termination
proof (relation "measure (\<lambda>(m, current, d, acc).
         case (d, current) of (Some t, Some c) \<Rightarrow> nat (c - t + 1) | _ \<Rightarrow> 0)")
  show "wf (measure (\<lambda>(m, current, d, acc).
         case (d, current) of (Some t, Some c) \<Rightarrow> nat (c - t + 1) | _ \<Rightarrow> 0))"
    by simp
next
  fix dateValueMap :: "nat obj" and current d :: date and acc dayCount :: nat and t :: int
  assume "d = Some t" and "date_le (Some t) current"
  then obtain c where "current = Some c" "t \<le> c"
    by (auto simp: date_le_def split: option.splits)
  with \<open>d = Some t\<close>
  show "((dateValueMap, current, addDays 1 (Some t),
                acc + count_or_0 dateValueMap (toISODate t), dayCount + 1),
              (dateValueMap, current, d, acc, dayCount))
             \<in> measure (\<lambda>(m, current, d, acc).
                  case (d, current) of (Some t, Some c) \<Rightarrow> nat (c - t + 1) | _ \<Rightarrow> 0)"
    by (simp add: addDays_def TimeClip_def msPerDay_def)
qed

declare dayLoop.simps [simp del]

definition calculate30DayRollingSum ::
  "(string \<Rightarrow> date) \<Rightarrow> nat obj \<Rightarrow> string \<Rightarrow> number option" where
  "calculate30DayRollingSum parse dateValueMap targetDate =
     (let current = parse targetDate;
          thirtyDaysBefore = addDays (- 30) current
      in case dayLoop dateValueMap current thirtyDaysBefore (0, 0) of
           (acc, dayCount) \<Rightarrow>
             if 30 \<le> dayCount then Some (num_div (of_count acc) (Fin 30)) else None)"

text \<open>
  The reducer \<open>acc[date] = (acc[date] || 0) + 1\<close>: one more for every row. The key of a
  deal without \<open>created_date\<close> is the string \<open>undefined\<close>. (Under a key that
  \<open>Object.prototype\<close> defines the source stores a string, and nothing under
  \<open>__proto__\<close>; such a key is no date, and no later step reads what is stored.)
\<close>

definition createdKey :: "Deal \<Rightarrow> string" where
  "createdKey deal = (case created_date deal of None \<Rightarrow> ''undefined'' | Some s \<Rightarrow> s)"

definition rowsByDate :: "Deal list \<Rightarrow> nat obj" where
  "rowsByDate ds =
     foldl (\<lambda>acc deal.
              let d = createdKey deal
              in set_prop acc d (count_or_0 acc d + 1))
       [] ds"

text \<open>The deals of the selected year.\<close>

definition yearFiltered :: "(string \<Rightarrow> date) \<Rightarrow> int \<Rightarrow> Deal list \<Rightarrow> string \<Rightarrow> Deal list" where
  "yearFiltered parse tzo ds selectedYear =
     (if selectedYear = ''all'' then ds
      else filter (\<lambda>deal. (case created_date deal of
                              None \<Rightarrow> ''NaN''
                            | Some s \<Rightarrow> yearString parse tzo s) = selectedYear) ds)"

definition chartData_sample ::
  "(string \<Rightarrow> date) \<Rightarrow> int \<Rightarrow> Deal list \<Rightarrow> string \<Rightarrow> number option ChartDataPoint list" where
  "chartData_sample parse tzo ds selectedYear =
     (if ds = [] then []
      else let filtered = yearFiltered parse tzo ds selectedYear;
               settledByDate = rowsByDate (filter statusSettled filtered);
               rednoteByDate = rowsByDate (filter fromRednote filtered);
               allDates = sort (Set_from (map fst (Object_entries settledByDate)
                                            @ map fst (Object_entries rednoteByDate)));
               result = map (\<lambda>d. \<lparr>date = d,
                                    settledDeals30DayAvg = calculate30DayRollingSum parse settledByDate d,
                                    rednoteDeals30DayAvg = calculate30DayRollingSum parse rednoteByDate d\<rparr>)
                          allDates
           in filter (\<lambda>p. settledDeals30DayAvg p \<noteq> None \<or> rednoteDeals30DayAvg p \<noteq> None) result)"


section \<open>Example inputs\<close>

definition blankDeal :: Deal where
  "blankDeal =
     \<lparr>deal_id = [], deal_name = [], broker_name = [], deal_value = None,
      Application_1 = None, Assessment_2 = None, Approval_3 = None, Loan_Document_4 = None,
      Settlement_Queue_5 = None, Settled_6 = None, Settlement_2025 = None,
      Settlement_2024 = None, status = [], latest_date = None, created_date = None,
      From_Rednote = []\<rparr>"

text \<open>Two deals of broker A: one settled with value 100, one with an application only.\<close>

definition dealsOfA :: "Deal list" where
  "dealsOfA =
     [blankDeal\<lparr>deal_id := ''1'', broker_name := ''A'', deal_value := Some 100,
                Settled_6 := Some ''2024-01-01''\<rparr>,
      blankDeal\<lparr>deal_id := ''2'', broker_name := ''A'', deal_value := Some 0,
                Application_1 := Some ''x''\<rparr>]"

definition performanceOfA :: BrokerPerformance where
  "performanceOfA =
     \<lparr>brokerName = ''A'', totalDeals = 2, settledDeals = 1, settledRate = Fin 50,
      settledValue = 100, avgDealValue = Fin 100, conversionRate = Fin 100,
      convertedDeals = 2\<rparr>"


text \<open>
  Brokers A and B: B has settled more value, A has converted a larger share, so the two
  modes order them differently.
\<close>

definition dealsOfAB :: "Deal list" where
  "dealsOfAB =
     dealsOfA @
     [blankDeal\<lparr>deal_id := ''3'', broker_name := ''B'', deal_value := Some 500,
                Settled_6 := Some ''2024-02-01''\<rparr>,
      blankDeal\<lparr>deal_id := ''4'', broker_name := ''B''\<rparr>]"

definition performanceOfB :: BrokerPerformance where
  "performanceOfB =
     \<lparr>brokerName = ''B'', totalDeals = 2, settledDeals = 1, settledRate = Fin 50,
      settledValue = 500, avgDealValue = Fin 500, conversionRate = Fin 50,
      convertedDeals = 1\<rparr>"

text \<open>A deal with a \<open>latest_date\<close> and one without.\<close>

definition datedDeal :: Deal where
  "datedDeal =
     blankDeal\<lparr>deal_id := ''1'', broker_name := ''A'', latest_date := Some ''2024-01-07''\<rparr>"

definition undatedDeal :: Deal where
  "undatedDeal = blankDeal\<lparr>deal_id := ''2'', broker_name := ''A''\<rparr>"

text \<open>
  Four weeks with 5, 25, 15 and 40 deals, of which 5, 5, 0 and 30 are settled (and
  converted).
\<close>

definition week :: "int \<Rightarrow> nat \<Rightarrow> nat \<Rightarrow> WeekGroup" where
  "week ws n k =
     \<lparr>weekStart = ws, weekDeals = replicate n blankDeal, weekTotal = n, weekSettled = k,
      weekConverted = k\<rparr>"

definition fourWeeks :: "WeekGroup obj" where
  "fourWeeks =
     [(''2024-01-01'', week 1704067200000 5 5), (''2024-01-08'', week 1704672000000 25 5),
      (''2024-01-15'', week 1705276800000 15 0), (''2024-01-22'', week 1705881600000 40 30)]"

definition fourWeeksChart :: "ChartCategory list" where
  "fourWeeksChart =
     [\<lparr>category = ''< 20'', rate = Fin 50, weekCount = 2, sumDeals = 20,
       avgSettledRate = Fin 50, avgConversionRate = Fin 50\<rparr>,
      \<lparr>category = ''>= 20'', rate = Fin (95 / 2), weekCount = 2, sumDeals = 65,
       avgSettledRate = Fin (95 / 2), avgConversionRate = Fin (95 / 2)\<rparr>]"

text \<open>Deals of broker A dated Sunday 2024-01-07 and Monday 2024-01-08.\<close>

definition sundayDeal :: Deal where
  "sundayDeal =
     blankDeal\<lparr>deal_id := ''7'', broker_name := ''A'', latest_date := Some ''2024-01-07''\<rparr>"

definition mondayDeal :: Deal where
  "mondayDeal =
     blankDeal\<lparr>deal_id := ''8'', broker_name := ''A'', latest_date := Some ''2024-01-08'',
                Settled_6 := Some ''2024-01-08''\<rparr>"

definition hour :: int where
  "hour = 3600000"

text \<open>A settled row created on 2024-01-01.\<close>

definition settledRow :: Deal where
  "settledRow =
     blankDeal\<lparr>deal_id := ''d1'', broker_name := ''A'', status := ''6. Settled'',
                created_date := Some ''2024-01-01''\<rparr>"

text \<open>A second settled row of the same day, and draws that are all 1/2.\<close>

definition settledRow2 :: Deal where
  "settledRow2 = settledRow\<lparr>deal_id := ''d2''\<rparr>"

definition halfDraws :: Draws where
  "halfDraws =
     \<lparr>dateDraw = Abs_random (1 / 2), rednoteDraw = Abs_random (1 / 2),
      settledDraw = Abs_random (1 / 2), brokerDraw = Abs_random (1 / 2),
      statusDraw = Abs_random (1 / 2), valueDraw = Abs_random (1 / 2)\<rparr>"

section \<open>Invariants\<close>

text \<open>
  The accumulator of the reducer that collects \<open>deal_id\<close>s, after the deals \<open>seen\<close>: no
  date twice, every date of a deal seen is a key, and the set of a date holds, once each,
  the \<open>deal_id\<close>s of the deals seen with that date.
\<close>

definition ids_inv :: "Deal list \<Rightarrow> string list obj \<Rightarrow> bool" where
  "ids_inv seen acc =
     (distinct (map fst acc)
      \<and> (\<forall>x \<in> set seen. \<forall>d. bucketDate x = Some d \<longrightarrow> d \<in> fst ` set acc)
      \<and> (\<forall>(d, ids) \<in> set acc.
            distinct ids \<and> set ids = deal_id ` {x \<in> set seen. bucketDate x = Some d}))"

section \<open>Evaluation of dates\<close>

lemma civil_from_days_staged:
  "civil_from_days z = civil_of_doe ((z + 719468) div 146097) ((z + 719468) mod 146097)"
  by (simp only: civil_from_days_def civil_of_doe_def civil_of_yoe_def civil_of_doy_def
      civil_of_mp_def civil_of_m_def Let_def)

lemmas civil_eval = civil_from_days_staged civil_of_doe_def civil_of_yoe_def civil_of_doy_def
  civil_of_mp_def civil_of_m_def

lemma digit_char_eval:
  "digit_char 0 = CHR ''0''" "digit_char 1 = CHR ''1''" "digit_char (Suc 0) = CHR ''1''"
  "digit_char 2 = CHR ''2''" "digit_char 3 = CHR ''3''" "digit_char 4 = CHR ''4''"
  "digit_char 5 = CHR ''5''" "digit_char 6 = CHR ''6''" "digit_char 7 = CHR ''7''"
  "digit_char 8 = CHR ''8''" "digit_char 9 = CHR ''9''"
  by code_simp+

lemmas date_eval = toISODate_def msPerDay_def civil_eval pad0_def digits.simps digit_char_eval

lemmas parse_eval = isDigit_def decimal_val_def digit_val_def TimeClip_def msPerDay_def
  maxTime_def civil_eval

lemma parse_0101: "parseDateOnly ''2024-01-01'' = Some 1704067200000"
  unfolding parseDateOnly_def days_from_civil_def Let_def by (simp add: parse_eval)

lemma parse_0107: "parseDateOnly ''2024-01-07'' = Some 1704585600000"
  unfolding parseDateOnly_def days_from_civil_def Let_def by (simp add: parse_eval)

lemma parse_0108: "parseDateOnly ''2024-01-08'' = Some 1704672000000"
  unfolding parseDateOnly_def days_from_civil_def Let_def by (simp add: parse_eval)

lemma parse_0315: "parseDateOnly ''2024-03-15'' = Some 1710460800000"
  unfolding parseDateOnly_def days_from_civil_def Let_def by (simp add: parse_eval)

section \<open>Properties of the broker performance table\<close>

subsection \<open>Dictionaries and sorting\<close>

lemma set_set_prop: "set (set_prop acc k v) \<subseteq> insert (k, v) (set acc)"
  by (induction acc) (auto split: if_splits)

lemma set_Object_entries: "set (Object_entries acc) = set acc"
  by (auto simp: Object_entries_def)

lemma mset_Object_entries: "mset (Object_entries acc) = mset acc"
  unfolding Object_entries_def by (simp add: o_def case_prod_unfold)

lemma get_prop_Own: "get_prop acc k = Own v \<Longrightarrow> (k, v) \<in> set acc"
  by (auto simp: get_prop_def split: option.splits if_splits dest: map_of_SomeD)

lemma insert_by_mset: "mset (insert_by cmp x ys) = add_mset x (mset ys)"
  by (induction ys) auto

lemma Array_sort_mset: "mset (Array_sort cmp xs) = mset xs"
  by (induction xs) (auto simp: Array_sort_def insert_by_mset)

lemma Array_sort_set: "set (Array_sort cmp xs) = set xs"
  using Array_sort_mset[of cmp xs] by (metis set_mset_mset)

lemma insert_by_set: "set (insert_by cmp x ys) = insert x (set ys)"
  using insert_by_mset[of cmp x ys] by (metis set_mset_add_mset_insert set_mset_mset)

text \<open>
  Insertion keeps a list descending in a key, provided the comparator is positive exactly
  when the key of its first argument is the smaller one.
\<close>

lemma insert_by_desc:
  fixes key :: "'a \<Rightarrow> rat"
  assumes "sorted_wrt (\<lambda>a b. key b \<le> key a) ys"
    and "\<forall>y \<in> set ys. num_gt (cmp x y) (Fin 0) \<longleftrightarrow> key x < key y"
  shows "sorted_wrt (\<lambda>a b. key b \<le> key a) (insert_by cmp x ys)"
  using assms
proof (induction ys)
  case Nil
  then show ?case by simp
next
  case (Cons y ys)
  show ?case
  proof (cases "num_gt (cmp x y) (Fin 0)")
    case True
    with Cons.prems have "key x < key y" by simp
    moreover have "sorted_wrt (\<lambda>a b. key b \<le> key a) (insert_by cmp x ys)"
      using Cons by simp
    ultimately show ?thesis
      using True Cons.prems(1) by (auto simp: insert_by_set)
  next
    case False
    with Cons.prems have "key y \<le> key x" by auto
    with False Cons.prems(1) show ?thesis by fastforce
  qed
qed

lemma Array_sort_desc:
  fixes key :: "'a \<Rightarrow> rat"
  assumes "\<forall>x \<in> set xs. \<forall>y \<in> set xs. num_gt (cmp x y) (Fin 0) \<longleftrightarrow> key x < key y"
  shows "sorted_wrt (\<lambda>a b. key b \<le> key a) (Array_sort cmp xs)"
  using assms
proof (induction xs)
  case Nil
  then show ?case by (simp add: Array_sort_def)
next
  case (Cons x xs)
  have "sorted_wrt (\<lambda>a b. key b \<le> key a) (Array_sort cmp xs)"
    using Cons by simp
  moreover have "\<forall>y \<in> set (Array_sort cmp xs). num_gt (cmp x y) (Fin 0) \<longleftrightarrow> key x < key y"
    using Cons.prems by (simp add: Array_sort_set)
  ultimately have "sorted_wrt (\<lambda>a b. key b \<le> key a) (insert_by cmp x (Array_sort cmp xs))"
    by (rule insert_by_desc)
  then show ?case by (simp add: Array_sort_def)
qed

text \<open>The sort is stable: elements with the same key keep their order.\<close>

lemma insert_by_stable:
  fixes key :: "'a \<Rightarrow> rat"
  assumes "\<forall>y \<in> set ys. num_gt (cmp x y) (Fin 0) \<longleftrightarrow> key x < key y"
  shows "filter (\<lambda>y. key y = k) (insert_by cmp x ys)
           = (if key x = k then [x] else []) @ filter (\<lambda>y. key y = k) ys"
  using assms
proof (induction ys)
  case Nil
  then show ?case by simp
next
  case (Cons y ys)
  show ?case
  proof (cases "num_gt (cmp x y) (Fin 0)")
    case True
    with Cons.prems have lt: "key x < key y" by simp
    have "filter (\<lambda>y. key y = k) (insert_by cmp x ys)
            = (if key x = k then [x] else []) @ filter (\<lambda>y. key y = k) ys"
      using Cons by simp
    with True lt show ?thesis by auto
  next
    case False
    then show ?thesis by simp
  qed
qed

lemma Array_sort_stable:
  fixes key :: "'a \<Rightarrow> rat"
  assumes "\<forall>x \<in> set xs. \<forall>y \<in> set xs. num_gt (cmp x y) (Fin 0) \<longleftrightarrow> key x < key y"
  shows "filter (\<lambda>y. key y = k) (Array_sort cmp xs) = filter (\<lambda>y. key y = k) xs"
  using assms
proof (induction xs)
  case Nil
  then show ?case by (simp add: Array_sort_def)
next
  case (Cons x xs)
  have ih: "filter (\<lambda>y. key y = k) (Array_sort cmp xs) = filter (\<lambda>y. key y = k) xs"
    using Cons by simp
  have c: "\<forall>y \<in> set (Array_sort cmp xs). num_gt (cmp x y) (Fin 0) \<longleftrightarrow> key x < key y"
    using Cons.prems by (simp add: Array_sort_set)
  from insert_by_stable[of "Array_sort cmp xs" cmp x key k, OF c]
  have "filter (\<lambda>y. key y = k) (insert_by cmp x (Array_sort cmp xs))
          = (if key x = k then [x] else []) @ filter (\<lambda>y. key y = k) (Array_sort cmp xs)" .
  with ih show ?case by (simp add: Array_sort_def)
qed

lemma sorted_wrt_cong_set:
  "(\<And>a b. a \<in> set xs \<Longrightarrow> b \<in> set xs \<Longrightarrow> P a b = Q a b)
     \<Longrightarrow> sorted_wrt P xs = sorted_wrt Q xs"
  by (induction xs) auto

subsection \<open>The accumulator\<close>

lemma settled_converted: "isSettled d \<Longrightarrow> isConverted d"
  by (simp add: isSettled_def isConverted_def)

lemma tally_ok: "stats_ok st \<Longrightarrow> stats_ok (tally d st)"
  by (auto simp: stats_ok_def tally_def Let_def dest: settled_converted)

lemma emptyStats_ok: "stats_ok emptyStats"
  by (simp add: stats_ok_def emptyStats_def)

lemma step_ok:
  assumes "brokerStats_step acc d = Inr acc'" and "\<forall>e \<in> set acc. stats_ok (snd e)"
  shows "\<forall>e \<in> set acc'. stats_ok (snd e)"
proof -
  from assms(1) obtain st where acc': "acc' = set_prop acc (broker_name d) (tally d st)"
    and st: "stats_ok st"
    using assms(2) emptyStats_ok
    by (auto simp: brokerStats_step_def Let_def split: property.splits dest!: get_prop_Own)
  show ?thesis
    using set_set_prop[of acc "broker_name d" "tally d st"] assms(2) tally_ok[OF st]
    unfolding acc' by auto
qed

lemma reduce_ok:
  "reduce brokerStats_step ds acc = Inr acc' \<Longrightarrow> \<forall>e \<in> set acc. stats_ok (snd e)
     \<Longrightarrow> \<forall>e \<in> set acc'. stats_ok (snd e)"
proof (induction ds arbitrary: acc)
  case Nil
  then show ?case by simp
next
  case (Cons d ds)
  then show ?case
    by (auto split: sum.splits dest!: step_ok)
qed

lemma entries_ok:
  assumes "brokerEntries ds = Inr u" and "p \<in> set u"
  shows "\<exists>k st. stats_ok st \<and> p = toPerformance (k, st)"
proof -
  from assms(1) obtain acc where r: "reduce brokerStats_step ds [] = Inr acc"
    and u: "u = map toPerformance (Object_entries acc)"
    by (auto simp: brokerEntries_def split: sum.splits)
  from reduce_ok[OF r] have ok: "\<forall>e \<in> set acc. stats_ok (snd e)" by simp
  from assms(2) u obtain k st where "(k, st) \<in> set acc" and p: "p = toPerformance (k, st)"
    by (auto simp: set_Object_entries)
  with ok have "stats_ok st" by auto
  with p show ?thesis by blast
qed

lemma brokerPerformance_entries:
  "brokerPerformance ds m = Inr perf \<longleftrightarrow>
     (\<exists>u. brokerEntries ds = Inr u \<and> perf = Array_sort (compareBrokers m) u)"
  by (cases ds) (auto simp: brokerPerformance_def brokerEntries_def Array_sort_def
      Object_entries_def split: sum.splits)

lemma brokerPerformance2_entries:
  "brokerPerformance2 ds = Inr perf \<longleftrightarrow>
     (\<exists>u. brokerEntries ds = Inr u
          \<and> perf = Array_sort (\<lambda>a b. Fin (settledValue b - settledValue a)) u)"
  by (cases ds) (auto simp: brokerPerformance2_def brokerEntries_def Array_sort_def
      Object_entries_def split: sum.splits)

lemma produced_entry:
  assumes "brokerPerformance ds m = Inr perf" and "p \<in> set perf"
  shows "\<exists>k st. stats_ok st \<and> p = toPerformance (k, st)"
proof -
  from assms obtain u where "brokerEntries ds = Inr u" and "p \<in> set u"
    by (auto simp: brokerPerformance_entries Array_sort_set)
  then show ?thesis by (rule entries_ok)
qed

lemma toPerformance_fields:
  "totalDeals (toPerformance (k, st)) = length (deals st)"
  "settledDeals (toPerformance (k, st)) = settled st"
  "convertedDeals (toPerformance (k, st)) = converted st"
  "settledRate (toPerformance (k, st)) = percentage (settled st) (length (deals st))"
  "conversionRate (toPerformance (k, st)) = percentage (converted st) (length (deals st))"
  "settledValue (toPerformance (k, st)) = settledSum st"
  by (simp_all add: toPerformance_def Let_def)

lemma percentage_cases:
  "part \<le> whole \<Longrightarrow> \<exists>r. percentage part whole = Fin r \<and> 0 \<le> r \<and> r \<le> 100"
  by (auto simp: percentage_def of_count_def divide_le_eq)

lemma percentage_bounded: "part \<le> whole \<Longrightarrow> is_percent (percentage part whole)"
  using percentage_cases[of part whole] by (auto simp: is_percent_def)

text \<open>Without the guard the division of zero by zero is not a number.\<close>

lemma unguarded_division: "num_mul (num_div (of_count 0) (of_count 0)) (Fin 100) = NaN"
  by (simp add: of_count_def)

lemma performance_of_A: "brokerPerformance dealsOfA settled_mode = Inr [performanceOfA]"
  by code_simp

subsection \<open>Counts\<close>

text \<open>
  Claim C1. Whenever the aggregation of a deal list returns a table, every entry of the
  table has \<open>settledDeals \<le> convertedDeals \<le> totalDeals\<close>: a deal with a non-empty trimmed
  \<open>6. Settled\<close> field counts as converted too, and both counters grow only together with
  the group's list of deals.
\<close>

theorem counts_ordered:
  assumes "brokerPerformance ds m = Inr perf" and "p \<in> set perf"
  shows "settledDeals p \<le> convertedDeals p \<and> convertedDeals p \<le> totalDeals p"
proof -
  from produced_entry[OF assms] obtain k st where "stats_ok st" "p = toPerformance (k, st)"
    by blast
  then show ?thesis by (simp add: toPerformance_fields stats_ok_def)
qed

theorem counts_ordered_witness:
  "brokerPerformance dealsOfA settled_mode = Inr [performanceOfA]
   \<and> performanceOfA \<in> set [performanceOfA]
   \<and> settledDeals performanceOfA \<le> convertedDeals performanceOfA
   \<and> convertedDeals performanceOfA \<le> totalDeals performanceOfA"
  using counts_ordered[of dealsOfA settled_mode "[performanceOfA]" performanceOfA] performance_of_A
  by simp


subsection \<open>Rates\<close>

text \<open>
  Claim C7. Whenever the aggregation returns a table, the \<open>settledRate\<close> and the
  \<open>conversionRate\<close> of every entry are finite numbers between 0 and 100; each is the
  guarded percentage of its counter in \<open>totalDeals\<close>, and the guarded percentage with
  denominator 0 is the number 0, not \<open>NaN\<close> and not an exception.
\<close>

theorem rates_bounded:
  assumes "brokerPerformance ds m = Inr perf" and "p \<in> set perf"
  shows "is_percent (settledRate p) \<and> is_percent (conversionRate p)
         \<and> settledRate p = percentage (settledDeals p) (totalDeals p)
         \<and> conversionRate p = percentage (convertedDeals p) (totalDeals p)
         \<and> percentage (settledDeals p) 0 = Fin 0
         \<and> percentage (convertedDeals p) 0 = Fin 0"
proof -
  from produced_entry[OF assms] obtain k st where "stats_ok st" "p = toPerformance (k, st)"
    by blast
  then show ?thesis
    by (simp add: toPerformance_fields stats_ok_def percentage_bounded)
      (simp add: percentage_def)
qed

theorem rates_bounded_witness:
  "brokerPerformance dealsOfA settled_mode = Inr [performanceOfA]
   \<and> is_percent (settledRate performanceOfA) \<and> is_percent (conversionRate performanceOfA)
   \<and> settledRate performanceOfA = Fin 50"
proof -
  have "performanceOfA \<in> set [performanceOfA]" by simp
  note r = rates_bounded[OF performance_of_A this]
  have "settledRate performanceOfA = Fin 50" by (simp add: performanceOfA_def)
  with r performance_of_A show ?thesis by blast
qed

subsection \<open>Order of the table\<close>

lemma compare_settled:
  "num_gt (compareBrokers settled_mode x y) (Fin 0) \<longleftrightarrow> settledValue x < settledValue y"
  by (simp add: compareBrokers_def)

lemma compare_conversion:
  assumes "is_percent (conversionRate x)" "is_percent (conversionRate y)"
  shows "num_gt (compareBrokers conversion_mode x y) (Fin 0)
           \<longleftrightarrow> rate_of (conversionRate x) < rate_of (conversionRate y)"
  using assms
  by (auto simp: compareBrokers_def is_percent_def num_sub_def rate_of_def split: number.splits)

lemma num_ge_rate:
  assumes "is_percent a" "is_percent b"
  shows "num_ge a b \<longleftrightarrow> rate_of b \<le> rate_of a"
  using assms by (auto simp: is_percent_def rate_of_def split: number.splits)

lemma entries_percent:
  assumes "brokerEntries ds = Inr u" and "p \<in> set u"
  shows "is_percent (conversionRate p)"
proof -
  from entries_ok[OF assms] obtain k st where "stats_ok st" "p = toPerformance (k, st)"
    by blast
  then show ?thesis by (simp add: toPerformance_fields stats_ok_def percentage_bounded)
qed

lemma rate_eq_iff:
  assumes "is_percent a"
  shows "a = c \<longleftrightarrow> is_percent c \<and> rate_of a = rate_of c"
  using assms by (auto simp: is_percent_def rate_of_def split: number.splits)

lemma stable_conversion:
  assumes pc: "\<forall>p \<in> set u. is_percent (conversionRate p)"
  shows "filter (\<lambda>p. conversionRate p = c) (Array_sort (compareBrokers conversion_mode) u)
           = filter (\<lambda>p. conversionRate p = c) u"
proof (cases "is_percent c")
  case True
  have st: "filter (\<lambda>p. rate_of (conversionRate p) = rate_of c)
              (Array_sort (compareBrokers conversion_mode) u)
            = filter (\<lambda>p. rate_of (conversionRate p) = rate_of c) u"
    by (rule Array_sort_stable) (simp add: compare_conversion pc)
  have "filter (\<lambda>p. conversionRate p = c) xs
          = filter (\<lambda>p. rate_of (conversionRate p) = rate_of c) xs"
    if "set xs \<subseteq> set u" for xs
    using that pc True by (intro filter_cong refl) (auto simp: rate_eq_iff)
  from this[of u] this[of "Array_sort (compareBrokers conversion_mode) u"] st
  show ?thesis by (simp add: Array_sort_set)
next
  case False
  have "filter (\<lambda>p. conversionRate p = c) xs = []" if "set xs \<subseteq> set u" for xs
    using that pc False by (auto simp: filter_empty_conv)
  from this[of u] this[of "Array_sort (compareBrokers conversion_mode) u"]
  show ?thesis by (simp add: Array_sort_set)
qed

text \<open>
  Claim C8. The table is the list of mapped entries, reordered: in settled mode it is
  descending in \<open>settledValue\<close>, in conversion mode it is descending in
  \<open>conversionRate\<close>, and entries with equal keys keep the order in which the mapped
  entries come. The page without a mode orders its table by \<open>settledValue\<close> in the
  same way.
\<close>

theorem sorted_by_mode:
  "(brokerPerformance ds m = Inr perf \<longrightarrow>
      (\<exists>u. brokerEntries ds = Inr u \<and> mset perf = mset u
         \<and> (case m of
               settled_mode \<Rightarrow>
                 (\<forall>k. filter (\<lambda>p. settledValue p = k) perf
                        = filter (\<lambda>p. settledValue p = k) u)
             | conversion_mode \<Rightarrow>
                 (\<forall>c. filter (\<lambda>p. conversionRate p = c) perf
                        = filter (\<lambda>p. conversionRate p = c) u)))
      \<and> (case m of
            settled_mode \<Rightarrow> sorted_wrt (\<lambda>a b. settledValue b \<le> settledValue a) perf
          | conversion_mode \<Rightarrow>
              sorted_wrt (\<lambda>a b. num_ge (conversionRate a) (conversionRate b)) perf))
   \<and> (brokerPerformance2 ds = Inr perf2 \<longrightarrow>
      (\<exists>u. brokerEntries ds = Inr u \<and> mset perf2 = mset u
         \<and> (\<forall>k. filter (\<lambda>p. settledValue p = k) perf2
                = filter (\<lambda>p. settledValue p = k) u))
      \<and> sorted_wrt (\<lambda>a b. settledValue b \<le> settledValue a) perf2)"
proof (intro conjI impI)
  assume bp: "brokerPerformance ds m = Inr perf"
  then obtain u where u: "brokerEntries ds = Inr u"
    and perf: "perf = Array_sort (compareBrokers m) u"
    by (auto simp: brokerPerformance_entries)
  have pc: "\<forall>p \<in> set u. is_percent (conversionRate p)"
    using entries_percent[OF u] by blast
  have stable: "case m of
      settled_mode \<Rightarrow>
        (\<forall>k. filter (\<lambda>p. settledValue p = k) perf = filter (\<lambda>p. settledValue p = k) u)
    | conversion_mode \<Rightarrow>
        (\<forall>c. filter (\<lambda>p. conversionRate p = c) perf = filter (\<lambda>p. conversionRate p = c) u)"
  proof (cases m)
    case settled_mode
    have "filter (\<lambda>p. settledValue p = k) (Array_sort (compareBrokers settled_mode) u)
            = filter (\<lambda>p. settledValue p = k) u" for k
      by (rule Array_sort_stable) (simp add: compare_settled)
    with settled_mode perf show ?thesis by simp
  next
    case conversion_mode
    with perf stable_conversion[OF pc] show ?thesis by simp
  qed
  show "\<exists>u. brokerEntries ds = Inr u \<and> mset perf = mset u
         \<and> (case m of
               settled_mode \<Rightarrow>
                 (\<forall>k. filter (\<lambda>p. settledValue p = k) perf
                        = filter (\<lambda>p. settledValue p = k) u)
             | conversion_mode \<Rightarrow>
                 (\<forall>c. filter (\<lambda>p. conversionRate p = c) perf
                        = filter (\<lambda>p. conversionRate p = c) u))"
    using u perf stable by (intro exI[of _ u]) (simp add: Array_sort_mset)
  show "case m of
          settled_mode \<Rightarrow> sorted_wrt (\<lambda>a b. settledValue b \<le> settledValue a) perf
        | conversion_mode \<Rightarrow>
            sorted_wrt (\<lambda>a b. num_ge (conversionRate a) (conversionRate b)) perf"
  proof (cases m)
    case settled_mode
    have "sorted_wrt (\<lambda>a b. settledValue b \<le> settledValue a)
            (Array_sort (compareBrokers settled_mode) u)"
      by (rule Array_sort_desc) (simp add: compare_settled)
    with settled_mode perf show ?thesis by simp
  next
    case conversion_mode
    have "sorted_wrt (\<lambda>a b. rate_of (conversionRate b) \<le> rate_of (conversionRate a))
            (Array_sort (compareBrokers conversion_mode) u)"
      by (rule Array_sort_desc) (simp add: compare_conversion pc)
    moreover have "sorted_wrt (\<lambda>a b. num_ge (conversionRate a) (conversionRate b)) perf
        = sorted_wrt (\<lambda>a b. rate_of (conversionRate b) \<le> rate_of (conversionRate a)) perf"
      by (rule sorted_wrt_cong_set) (simp add: perf Array_sort_set pc num_ge_rate)
    ultimately show ?thesis using conversion_mode perf by simp
  qed
next
  assume "brokerPerformance2 ds = Inr perf2"
  then obtain u where u: "brokerEntries ds = Inr u"
    and perf: "perf2 = Array_sort (\<lambda>a b. Fin (settledValue b - settledValue a)) u"
    by (auto simp: brokerPerformance2_entries)
  have "filter (\<lambda>p. settledValue p = k)
          (Array_sort (\<lambda>a b. Fin (settledValue b - settledValue a)) u)
        = filter (\<lambda>p. settledValue p = k) u" for k
    by (rule Array_sort_stable) simp
  then show "\<exists>u. brokerEntries ds = Inr u \<and> mset perf2 = mset u
         \<and> (\<forall>k. filter (\<lambda>p. settledValue p = k) perf2
                = filter (\<lambda>p. settledValue p = k) u)"
    using u perf by (intro exI[of _ u]) (simp add: Array_sort_mset)
  have "sorted_wrt (\<lambda>a b. settledValue b \<le> settledValue a)
          (Array_sort (\<lambda>a b. Fin (settledValue b - settledValue a)) u)"
    by (rule Array_sort_desc) simp
  with perf show "sorted_wrt (\<lambda>a b. settledValue b \<le> settledValue a) perf2" by simp
qed

lemma performance_of_AB_settled:
  "brokerPerformance dealsOfAB settled_mode = Inr [performanceOfB, performanceOfA]"
  by code_simp

lemma performance_of_AB_conversion:
  "brokerPerformance dealsOfAB conversion_mode = Inr [performanceOfA, performanceOfB]"
  by code_simp

lemma performance2_of_AB:
  "brokerPerformance2 dealsOfAB = Inr [performanceOfB, performanceOfA]"
  by code_simp

theorem sorted_by_mode_witness:
  "brokerPerformance dealsOfAB settled_mode = Inr [performanceOfB, performanceOfA]
   \<and> brokerPerformance dealsOfAB conversion_mode = Inr [performanceOfA, performanceOfB]
   \<and> brokerPerformance2 dealsOfAB = Inr [performanceOfB, performanceOfA]
   \<and> sorted_wrt (\<lambda>a b. settledValue b \<le> settledValue a) [performanceOfB, performanceOfA]
   \<and> sorted_wrt (\<lambda>a b. num_ge (conversionRate a) (conversionRate b))
        [performanceOfA, performanceOfB]"
proof -
  from sorted_by_mode[of dealsOfAB settled_mode "[performanceOfB, performanceOfA]"
      "[performanceOfB, performanceOfA]"]
  have "sorted_wrt (\<lambda>a b. settledValue b \<le> settledValue a) [performanceOfB, performanceOfA]"
    using performance_of_AB_settled by simp
  moreover
  from sorted_by_mode[of dealsOfAB conversion_mode "[performanceOfA, performanceOfB]"
      "[performanceOfB, performanceOfA]"]
  have "sorted_wrt (\<lambda>a b. num_ge (conversionRate a) (conversionRate b))
          [performanceOfA, performanceOfB]"
    using performance_of_AB_conversion by simp
  ultimately show ?thesis
    using performance_of_AB_settled performance_of_AB_conversion performance2_of_AB by blast
qed

subsection \<open>The minimum-deals filter\<close>

text \<open>
  Claim C9. \<open>filteredBrokers\<close> keeps exactly the entries with
  \<open>totalDeals \<ge> minDealsThreshold\<close>, each as often as it occurs, and a larger threshold
  gives a list that is no longer and has no entry the smaller threshold drops.
\<close>

theorem filter_monotone:
  "mset (filteredBrokers perf n) = filter_mset (\<lambda>b. n \<le> of_nat (totalDeals b)) (mset perf)
   \<and> (n \<le> n' \<longrightarrow> length (filteredBrokers perf n') \<le> length (filteredBrokers perf n)
                  \<and> mset (filteredBrokers perf n') \<subseteq># mset (filteredBrokers perf n))"
proof -
  have sub: "mset (filteredBrokers perf n') \<subseteq># mset (filteredBrokers perf n)" if "n \<le> n'"
    using that unfolding filteredBrokers_def mset_filter
    by (intro filter_mset_mono_strong) auto
  then have "length (filteredBrokers perf n') \<le> length (filteredBrokers perf n)" if "n \<le> n'"
    using that by (metis size_mset size_mset_mono)
  with sub show ?thesis by (simp add: filteredBrokers_def)
qed

theorem filter_monotone_witness:
  "(2::rat) \<le> 3
   \<and> length (filteredBrokers [performanceOfA] 3) \<le> length (filteredBrokers [performanceOfA] 2)
   \<and> filteredBrokers [performanceOfA] 2 = [performanceOfA]
   \<and> filteredBrokers [performanceOfA] 3 = []"
  using filter_monotone[of "[performanceOfA]" 2 3]
  by (simp add: filteredBrokers_def performanceOfA_def)

section \<open>Properties of the deal filter\<close>

lemma dated_when_year_selected:
  "y \<noteq> ''all'' \<Longrightarrow> d \<in> set (filteredDeals parse tzo ds b y) \<Longrightarrow> has_latest_date d"
  by (auto simp: filteredDeals_def has_latest_date_def Let_def split: option.splits if_splits)

lemma undated_deals_ignored:
  "y \<noteq> ''all'' \<Longrightarrow>
     filteredDeals parse tzo ds b y = filteredDeals parse tzo (filter has_latest_date ds) b y"
  by (auto simp: filteredDeals_def has_latest_date_def Let_def intro!: filter_cong
      split: option.splits)

lemma filtered_2024:
  "filteredDeals parseDateOnly 0 [datedDeal, undatedDeal] ''all'' ''2024'' = [datedDeal]"
  by code_simp

text \<open>
  Claim C10. With a year selected, every deal that passes the filter has a
  \<open>latest_date\<close>, and the deals without one can be removed from the input without
  changing the filtered list, the performance table or the weekly chart. With the year
  \<open>all\<close> the year filter is not applied: the filtered list is the broker selection of the
  input, whatever the \<open>latest_date\<close> of a deal, and with the broker \<open>all\<close> too it is the
  whole input.
\<close>

theorem year_filter:
  "(selectedYear \<noteq> ''all'' \<longrightarrow>
      (\<forall>d \<in> set (filteredDeals parse tzo ds b selectedYear). has_latest_date d)
      \<and> filteredDeals parse tzo ds b selectedYear
          = filteredDeals parse tzo (filter has_latest_date ds) b selectedYear
      \<and> brokerPerformance (filteredDeals parse tzo ds b selectedYear) m
          = brokerPerformance
              (filteredDeals parse tzo (filter has_latest_date ds) b selectedYear) m
      \<and> chartData parse tzo (filteredDeals parse tzo ds b selectedYear) b m thr
          = chartData parse tzo
              (filteredDeals parse tzo (filter has_latest_date ds) b selectedYear) b m thr)
   \<and> filteredDeals parse tzo ds b ''all''
       = (if b \<noteq> ''all'' then filter (\<lambda>deal. broker_name deal = b) ds else ds)
   \<and> filteredDeals parse tzo ds ''all'' ''all'' = ds"
proof (intro conjI impI)
  assume y: "selectedYear \<noteq> ''all''"
  show "\<forall>d \<in> set (filteredDeals parse tzo ds b selectedYear). has_latest_date d"
    using dated_when_year_selected[OF y] by blast
  show eq: "filteredDeals parse tzo ds b selectedYear
          = filteredDeals parse tzo (filter has_latest_date ds) b selectedYear"
    by (rule undated_deals_ignored[OF y])
  show "brokerPerformance (filteredDeals parse tzo ds b selectedYear) m
          = brokerPerformance
              (filteredDeals parse tzo (filter has_latest_date ds) b selectedYear) m"
    using eq by simp
  show "chartData parse tzo (filteredDeals parse tzo ds b selectedYear) b m thr
          = chartData parse tzo
              (filteredDeals parse tzo (filter has_latest_date ds) b selectedYear) b m thr"
    using eq by simp
next
  show "filteredDeals parse tzo ds b ''all''
       = (if b \<noteq> ''all'' then filter (\<lambda>deal. broker_name deal = b) ds else ds)"
    by (simp add: filteredDeals_def)
  show "filteredDeals parse tzo ds ''all'' ''all'' = ds"
    by (simp add: filteredDeals_def)
qed

theorem year_filter_witness:
  "''2024'' \<noteq> ''all''
   \<and> filteredDeals parseDateOnly 0 [datedDeal, undatedDeal] ''all'' ''2024'' = [datedDeal]
   \<and> has_latest_date datedDeal \<and> \<not> has_latest_date undatedDeal
   \<and> filteredDeals parseDateOnly 0 [datedDeal, undatedDeal] ''all'' ''all''
       = [datedDeal, undatedDeal]"
proof -
  have u: "\<not> has_latest_date undatedDeal"
    by (simp add: has_latest_date_def undatedDeal_def blankDeal_def)
  have y: "''2024'' \<noteq> ''all''" by simp
  note t = year_filter[of "''2024''" parseDateOnly 0 "[datedDeal, undatedDeal]" "''all''"
      settled_mode 20]
  from t y
  have "\<forall>d \<in> set (filteredDeals parseDateOnly 0 [datedDeal, undatedDeal] ''all'' ''2024'').
          has_latest_date d"
    by blast
  then have "has_latest_date datedDeal" by (simp only: filtered_2024) simp
  moreover from t
  have "filteredDeals parseDateOnly 0 [datedDeal, undatedDeal] ''all'' ''all''
          = [datedDeal, undatedDeal]"
    by blast
  ultimately show ?thesis using u y filtered_2024 by blast
qed

section \<open>Properties of the fixed-divisor rolling average\<close>

lemma foldl_cond_sum:
  "foldl (\<lambda>s (d, c). if P d then s + c else s) a xs
     = a + sum_list (map snd (filter (\<lambda>(d, c). P d) xs))"
  for a :: nat
  by (induction xs arbitrary: a) (auto simp: case_prod_unfold)

lemma sum_entries:
  fixes m :: "nat obj"
  shows "sum_list (map snd (filter Q (Object_entries m))) = sum_list (map snd (filter Q m))"
proof -
  have "mset (map snd (filter Q (Object_entries m))) = mset (map snd (filter Q m))"
    by (simp add: mset_Object_entries)
  then show ?thesis by (metis sum_mset_sum_list)
qed

lemma window_test:
  "(date_le (case parse target of None \<Rightarrow> None
             | Some t \<Rightarrow> TimeClip (t - 30 * 24 * 60 * 60 * 1000)) (parse d)
      \<and> date_le (parse d) (parse target))
   = in_window parse target d"
  by (auto simp: date_le_def in_window_def TimeClip_def msPerDay_def split: option.splits)

lemma rolling_avg_eq:
  "calculate30DayRollingAvg parse m target avail =
     (if avail = [] then Fin 0 else Fin (of_nat (window_sum parse m target) / 30))"
  unfolding calculate30DayRollingAvg_def Let_def window_test
  by (simp add: foldl_cond_sum sum_entries window_sum_def of_count_def)

text \<open>
  Claim C3. The fixed-divisor average is always a finite number, never a missing value:
  0 when the list of available dates is empty, 0 when the map of counts is empty, and
  otherwise the sum of the counts whose date lies in the closed window of 30 days that
  ends at the target date, divided by 30, however many dates the window holds. A map
  whose only count that is not zero is a 5 at the target date gives 5/30.
\<close>

theorem fixed_divisor:
  "calculate30DayRollingAvg parse m target avail =
     (if avail = [] then Fin 0 else Fin (of_nat (window_sum parse m target) / 30))
   \<and> calculate30DayRollingAvg parse [] target avail = Fin 0
   \<and> (parse d = Some t \<and> \<bar>t - 30 * msPerDay\<bar> \<le> maxTime \<and> avail \<noteq> []
        \<and> (\<forall>e \<in> set m. snd e = 0)
      \<longrightarrow> calculate30DayRollingAvg parse ((d, 5) # m) d avail = Fin (5 / 30))"
proof (intro conjI impI)
  show "calculate30DayRollingAvg parse m target avail =
     (if avail = [] then Fin 0 else Fin (of_nat (window_sum parse m target) / 30))"
    by (rule rolling_avg_eq)
  show "calculate30DayRollingAvg parse [] target avail = Fin 0"
    by (simp add: rolling_avg_eq window_sum_def)
next
  assume a: "parse d = Some t \<and> \<bar>t - 30 * msPerDay\<bar> \<le> maxTime \<and> avail \<noteq> []
        \<and> (\<forall>e \<in> set m. snd e = 0)"
  then have "in_window parse d d" by (simp add: in_window_def msPerDay_def)
  moreover have "sum_list (map snd (filter Q m)) = 0" for Q
    using a by (induction m) auto
  ultimately have "window_sum parse ((d, 5) # m) d = 5"
    by (simp add: window_sum_def)
  with a show "calculate30DayRollingAvg parse ((d, 5) # m) d avail = Fin (5 / 30)"
    by (simp add: rolling_avg_eq)
qed

theorem fixed_divisor_witness:
  "parseDateOnly ''2024-03-15'' = Some 1710460800000
   \<and> calculate30DayRollingAvg parseDateOnly [(''2024-03-15'', 5), (''2024-03-14'', 0)]
        ''2024-03-15'' [''2024-03-14'', ''2024-03-15''] = Fin (5 / 30)"
  using fixed_divisor[of parseDateOnly "[(''2024-03-14'', 0)]" "''2024-03-15''"
      "[''2024-03-14'', ''2024-03-15'']" "''2024-03-15''" 1710460800000]
  by (simp add: parse_0315 msPerDay_def maxTime_def)


section \<open>Properties of the weekly threshold chart\<close>

lemma percentage_week_rate: "percentage part whole = Fin (week_rate part whole)"
  by (simp add: percentage_def week_rate_def of_count_def)

lemma foldl_num_add: "foldl num_add (Fin a) (map Fin rs) = Fin (a + sum_list rs)"
  by (induction rs arbitrary: a) (auto simp: add.assoc)

lemma sum_numbers_Fin: "sum_numbers (map (\<lambda>x. Fin (f x)) xs) = Fin (sum_list (map f xs))"
  using foldl_num_add[of 0 "map f xs"] by (simp add: sum_numbers_def o_def)

lemma weekRate_fields:
  "wTotalDeals (weekRate m thr g) = weekTotal g"
  "wRate (weekRate m thr g) = Fin (mode_rate m g)"
  "wSettledRate (weekRate m thr g) = Fin (week_rate (weekSettled g) (weekTotal g))"
  "wConversionRate (weekRate m thr g) = Fin (week_rate (weekConverted g) (weekTotal g))"
  "isAboveThreshold (weekRate m thr g) = (thr \<le> weekTotal g)"
  by (simp_all add: weekRate_def Let_def percentage_week_rate mode_rate_def split: mode.splits)

lemma weeklyData_map:
  "weeklyData m thr wg = map (weekRate m thr) (map snd (Object_entries wg))"
  by (simp add: weeklyData_def case_prod_unfold o_def)

lemma filter_above:
  "filter isAboveThreshold (map (weekRate m thr) gs)
     = map (weekRate m thr) (filter (\<lambda>g. thr \<le> weekTotal g) gs)"
  by (induction gs) (simp_all add: weekRate_fields)

lemma filter_below:
  "filter (\<lambda>w. \<not> isAboveThreshold w) (map (weekRate m thr) gs)
     = map (weekRate m thr) (filter (\<lambda>g. weekTotal g < thr) gs)"
  by (induction gs) (simp_all add: weekRate_fields not_le)

lemma foldl_total:
  "foldl (\<lambda>sum w. sum + wTotalDeals w) a ws = a + sum_list (map wTotalDeals ws)"
  for a :: nat
  by (induction ws arbitrary: a) auto

lemma chartEntry_spec:
  assumes "gs \<noteq> []"
  shows "chartEntry sign thr
           (num_div (sum_numbers (map wRate (map (weekRate m thr) gs))) (of_count (length gs)))
           (map (weekRate m thr) gs)
         = category_of m (sign @ '' '' @ digits thr) gs"
  using assms
  by (simp add: chartEntry_def category_of_def o_def weekRate_fields sum_numbers_Fin
      of_count_def mean_def foldl_total)

lemma thresholdCategories_spec:
  "thresholdCategories thr (weeklyData m thr wg) =
     (if weeks_below thr wg = [] then []
      else [category_of m (''< '' @ digits thr) (weeks_below thr wg)])
     @ (if weeks_at_or_above thr wg = [] then []
        else [category_of m (''>= '' @ digits thr) (weeks_at_or_above thr wg)])"
  unfolding thresholdCategories_def weeklyData_map filter_above filter_below Let_def
    weeks_below_def[symmetric] weeks_at_or_above_def[symmetric]
  using chartEntry_spec[of "weeks_below thr wg" "''<''" thr m]
    chartEntry_spec[of "weeks_at_or_above thr wg" "''>=''" thr m]
  by simp

lemma category_of_fields:
  "weekCount (category_of m label gs) = length gs"
  "avgSettledRate (category_of m label gs)
     = Fin (mean (map (\<lambda>g. week_rate (weekSettled g) (weekTotal g)) gs))"
  by (simp_all add: category_of_def)

lemma four_weeks_below:
  "weeks_below 20 fourWeeks = [week 1704067200000 5 5, week 1705276800000 15 0]"
  by code_simp

lemma four_weeks_above:
  "weeks_at_or_above 20 fourWeeks = [week 1704672000000 25 5, week 1705881600000 40 30]"
  by code_simp

lemma floor_rat_numeral: "\<lfloor>(numeral a :: rat) / numeral b\<rfloor> = numeral a div numeral b"
  using floor_divide_of_int_eq[of "numeral a" "numeral b", where ?'a = rat] by simp

lemma digits_20: "digits 20 = ''20''"
  by (simp add: digits.simps digit_char_eval)

lemma four_weeks_below_category:
  "category_of settled_mode label [week 1704067200000 5 5, week 1705276800000 15 0]
     = \<lparr>category = label, rate = Fin 50, weekCount = 2, sumDeals = 20,
        avgSettledRate = Fin 50, avgConversionRate = Fin 50\<rparr>"
  by (simp add: category_of_def week_def mean_def mode_rate_def week_rate_def toFixed1_def
      floor_rat_numeral)

lemma four_weeks_above_category:
  "category_of settled_mode label [week 1704672000000 25 5, week 1705881600000 40 30]
     = \<lparr>category = label, rate = Fin (95 / 2), weekCount = 2, sumDeals = 65,
        avgSettledRate = Fin (95 / 2), avgConversionRate = Fin (95 / 2)\<rparr>"
  by (simp add: category_of_def week_def mean_def mode_rate_def week_rate_def toFixed1_def
      floor_rat_numeral)

text \<open>
  Claim C5. The chart is made of at most two categories: one for the weeks whose total
  is below the threshold, then one for the weeks at or above it. A category is present
  exactly when it has a week, so every category shown counts at least one week. Each
  carries the number of its weeks, the sum of their deals, the arithmetic means of the
  weeks' own settled and conversion rates, and as displayed rate the mean of the weeks'
  rates in the selected mode rounded to one decimal. For weeks with 5, 25, 15 and 40
  deals and threshold 20 both categories count two weeks; with 5, 5, 0 and 30 of these
  deals settled the means of the settled rates are 50 and 47.5, where the rates of the
  pooled totals would be 25 and 700/13.
\<close>

theorem threshold_chart:
  "thresholdCategories thr (weeklyData m thr wg) =
     (if weeks_below thr wg = [] then []
      else [category_of m (''< '' @ digits thr) (weeks_below thr wg)])
     @ (if weeks_at_or_above thr wg = [] then []
        else [category_of m (''>= '' @ digits thr) (weeks_at_or_above thr wg)])
   \<and> length (thresholdCategories thr (weeklyData m thr wg)) \<le> 2
   \<and> (\<forall>c \<in> set (thresholdCategories thr (weeklyData m thr wg)). 0 < weekCount c)
   \<and> map weekTotal (weeks_below 20 fourWeeks) = [5, 15]
   \<and> map weekTotal (weeks_at_or_above 20 fourWeeks) = [25, 40]
   \<and> map weekCount (thresholdCategories 20 (weeklyData m 20 fourWeeks)) = [2, 2]
   \<and> map avgSettledRate (thresholdCategories 20 (weeklyData m 20 fourWeeks))
       = [Fin 50, Fin (95 / 2)]
   \<and> week_rate (5 + 0) (5 + 15) = 25 \<and> week_rate (5 + 30) (25 + 40) = 700 / 13"
proof (intro conjI)
  show "thresholdCategories thr (weeklyData m thr wg) =
     (if weeks_below thr wg = [] then []
      else [category_of m (''< '' @ digits thr) (weeks_below thr wg)])
     @ (if weeks_at_or_above thr wg = [] then []
        else [category_of m (''>= '' @ digits thr) (weeks_at_or_above thr wg)])"
    by (rule thresholdCategories_spec)
  show "length (thresholdCategories thr (weeklyData m thr wg)) \<le> 2"
    by (simp add: thresholdCategories_spec)
  show "\<forall>c \<in> set (thresholdCategories thr (weeklyData m thr wg)). 0 < weekCount c"
    by (simp add: thresholdCategories_spec category_of_fields)
  show "map weekTotal (weeks_below 20 fourWeeks) = [5, 15]"
    by (simp add: four_weeks_below week_def)
  show "map weekTotal (weeks_at_or_above 20 fourWeeks) = [25, 40]"
    by (simp add: four_weeks_above week_def)
  show "map weekCount (thresholdCategories 20 (weeklyData m 20 fourWeeks)) = [2, 2]"
    by (simp add: thresholdCategories_spec four_weeks_below four_weeks_above
        category_of_fields)
  show "map avgSettledRate (thresholdCategories 20 (weeklyData m 20 fourWeeks))
       = [Fin 50, Fin (95 / 2)]"
    by (simp add: thresholdCategories_spec four_weeks_below four_weeks_above
        category_of_fields week_def week_rate_def mean_def)
  show "week_rate (5 + 0) (5 + 15) = 25" by (simp add: week_rate_def)
  show "week_rate (5 + 30) (25 + 40) = 700 / 13" by (simp add: week_rate_def)
qed

theorem threshold_chart_witness:
  "weeks_below 20 fourWeeks \<noteq> [] \<and> weeks_at_or_above 20 fourWeeks \<noteq> []
   \<and> thresholdCategories 20 (weeklyData settled_mode 20 fourWeeks) = fourWeeksChart
   \<and> map weekCount fourWeeksChart = [2, 2]"
proof -
  have ne: "weeks_below 20 fourWeeks \<noteq> [] \<and> weeks_at_or_above 20 fourWeeks \<noteq> []"
    by (simp add: four_weeks_below four_weeks_above)
  from threshold_chart[of 20 settled_mode fourWeeks]
  have "thresholdCategories 20 (weeklyData settled_mode 20 fourWeeks) =
     (if weeks_below 20 fourWeeks = [] then []
      else [category_of settled_mode (''< '' @ digits 20) (weeks_below 20 fourWeeks)])
     @ (if weeks_at_or_above 20 fourWeeks = [] then []
        else [category_of settled_mode (''>= '' @ digits 20) (weeks_at_or_above 20 fourWeeks)])"
    by blast
  then have "thresholdCategories 20 (weeklyData settled_mode 20 fourWeeks) = fourWeeksChart"
    by (simp add: four_weeks_below four_weeks_above four_weeks_below_category
        four_weeks_above_category digits_20 fourWeeksChart_def)
  moreover have "map weekCount fourWeeksChart = [2, 2]" by (simp add: fourWeeksChart_def)
  ultimately show ?thesis using ne by blast
qed

section \<open>Week keys and the time zone\<close>

text \<open>
  In a host on UTC the week of a deal dated with a calendar day starts at the Monday
  on or before that day: day 4 (1970-01-05) is a Monday.
\<close>

lemma utc_week_start:
  "weekStartOf 0 (day * msPerDay) = TimeClip ((day - (day + 3) mod 7) * msPerDay)"
proof -
  have pos: "0 < msPerDay" by (simp add: msPerDay_def)
  have gd: "getDay 0 (day * msPerDay) = (day + 4) mod 7" using pos by (simp add: getDay_def)
  have off: "- ((day + 4) mod 7) + (if (day + 4) mod 7 = 0 then - 6 else 1)
               = - ((day + 3) mod 7)"
    by presburger
  have "day * msPerDay + - ((day + 3) mod 7) * msPerDay = (day - (day + 3) mod 7) * msPerDay"
    by (simp add: algebra_simps)
  then show ?thesis
    unfolding weekStartOf_def Let_def gd off using pos
    by (simp add: addDays_def setHours0_def TimeClip_def split: if_splits)
qed

text \<open>
  East of UTC the local Monday starts on the UTC calendar day before it, and that day is
  what \<open>toISOString\<close> prints: the key of every week is a Sunday.
\<close>

lemma east_week_start:
  assumes "0 < tzo" and "tzo < msPerDay"
    and "- maxTime + 7 * msPerDay \<le> day * msPerDay" and "day * msPerDay \<le> maxTime"
  shows "weekStartOf tzo (day * msPerDay) = Some ((day - (day + 3) mod 7) * msPerDay - tzo)"
    and "((day - (day + 3) mod 7) * msPerDay - tzo) div msPerDay = day - (day + 3) mod 7 - 1"
proof -
  have pos: "0 < msPerDay" by (simp add: msPerDay_def)
  have ld: "(day * msPerDay + tzo) div msPerDay = day"
    using assms(1,2) pos by (simp add: div_pos_pos_trivial)
  have gd: "getDay tzo (day * msPerDay) = (day + 4) mod 7"
    by (simp add: getDay_def ld)
  have off: "- ((day + 4) mod 7) + (if (day + 4) mod 7 = 0 then - 6 else 1)
               = - ((day + 3) mod 7)"
    by presburger
  define k where "k = (day + 3) mod 7"
  have k: "0 \<le> k" "k \<le> 6" by (simp_all add: k_def)
  have mv: "day * msPerDay + - k * msPerDay = (day - k) * msPerDay"
    by (simp add: algebra_simps)
  have r1: "\<bar>(day - k) * msPerDay\<bar> \<le> maxTime"
    using assms(3,4) k unfolding msPerDay_def maxTime_def
    by (simp add: abs_le_iff left_diff_distrib)
  have ld2: "((day - k) * msPerDay + tzo) div msPerDay = day - k"
    using assms(1,2) pos by (simp add: div_pos_pos_trivial)
  have r2: "\<bar>(day - k) * msPerDay - tzo\<bar> \<le> maxTime"
    using assms k unfolding msPerDay_def maxTime_def
    by (simp add: abs_le_iff left_diff_distrib)
  have a1: "addDays (- k) (Some (day * msPerDay)) = Some ((day - k) * msPerDay)"
    using r1 by (simp add: addDays_def TimeClip_def left_diff_distrib)
  have a2: "setHours0 tzo (Some ((day - k) * msPerDay)) = Some ((day - k) * msPerDay - tzo)"
    using r2 by (simp add: setHours0_def TimeClip_def ld2)
  show "weekStartOf tzo (day * msPerDay) = Some ((day - (day + 3) mod 7) * msPerDay - tzo)"
    unfolding weekStartOf_def Let_def gd off k_def[symmetric] a1 a2 ..
  have e: "(day - k) * msPerDay - tzo = (day - k - 1) * msPerDay + (msPerDay - tzo)"
    by (simp add: algebra_simps)
  have "((day - k) * msPerDay - tzo) div msPerDay
          = ((day - k - 1) * msPerDay + (msPerDay - tzo)) div msPerDay"
    by (simp only: e)
  also have "\<dots> = day - k - 1"
    using assms(1,2) pos by (simp add: div_pos_pos_trivial)
  finally show "((day - (day + 3) mod 7) * msPerDay - tzo) div msPerDay
                  = day - (day + 3) mod 7 - 1"
    unfolding k_def .
qed

lemmas week_eval = weekKeyOf_def blankDeal_def weekStartOf_def getDay_def addDays_def
  setHours0_def TimeClip_def maxTime_def hour_def date_eval

lemma week_key_utc:
  "weekKeyOf parseDateOnly 0 sundayDeal = Inr (Some (1704067200000, ''2024-01-01''))"
  by (simp add: sundayDeal_def parse_0107 week_eval)

lemma week_key_monday_utc:
  "weekKeyOf parseDateOnly 0 mondayDeal = Inr (Some (1704672000000, ''2024-01-08''))"
  by (simp add: mondayDeal_def parse_0108 week_eval)

lemma week_key_east:
  "weekKeyOf parseDateOnly (10 * hour) sundayDeal
     = Inr (Some (1704031200000, ''2023-12-31''))"
  by (simp add: sundayDeal_def parse_0107 week_eval)

lemma week_key_west:
  "weekKeyOf parseDateOnly (- 5 * hour) mondayDeal
     = Inr (Some (1704085200000, ''2024-01-01''))"
  by (simp add: mondayDeal_def parse_0108 week_eval)

text \<open>The chart of two deals on UTC: Sunday 2024-01-07 and Monday 2024-01-08 are two weeks.\<close>

lemma chart_of_two_deals:
  "chartData parseDateOnly 0 [sundayDeal, mondayDeal] ''A'' settled_mode 1
     = Inr [\<lparr>category = ''>= 1'', rate = Fin 50, weekCount = 2, sumDeals = 2,
             avgSettledRate = Fin 50, avgConversionRate = Fin 50\<rparr>]"
  by code_simp

text \<open>
  Claim C6, evaluated. The deal dated Sunday 2024-01-07 gets the week key 2024-01-01
  on a host whose local time is UTC. On a host ten hours east of UTC the same deal gets
  the key 2023-12-31, a Sunday. On a host five hours west of UTC the deal dated Monday
  2024-01-08 gets the key 2024-01-01, the week before its own.
\<close>

theorem week_key_by_zone:
  "weekKeyOf parseDateOnly 0 sundayDeal = Inr (Some (1704067200000, ''2024-01-01''))
   \<and> weekKeyOf parseDateOnly (10 * hour) sundayDeal
       = Inr (Some (1704031200000, ''2023-12-31''))
   \<and> weekKeyOf parseDateOnly (- 5 * hour) mondayDeal
       = Inr (Some (1704085200000, ''2024-01-01''))"
  using week_key_utc week_key_east week_key_west by blast

section \<open>Properties of the full-window rolling average\<close>

lemma dayLoop_mono: "n \<le> snd (dayLoop m current d (acc, n))"
proof (induction m current d "(acc, n)" arbitrary: acc n rule: dayLoop.induct)
  case (1 m current d acc n)
  show ?case
  proof (cases d)
    case None
    then show ?thesis by (simp add: dayLoop.simps)
  next
    case (Some t)
    show ?thesis
    proof (cases "date_le (Some t) current")
      case True
      from "1"[OF Some True] have "n + 1 \<le> snd (dayLoop m current (addDays 1 (Some t))
             (acc + count_or_0 m (toISODate t), n + 1))" .
      then show ?thesis using Some True by (subst dayLoop.simps) simp
    next
      case False
      then show ?thesis using Some by (subst dayLoop.simps) simp
    qed
  qed
qed

lemma dayLoop_count:
  "- maxTime \<le> t \<Longrightarrow> c \<le> maxTime \<Longrightarrow> t + int k * msPerDay \<le> c
     \<Longrightarrow> n + k + 1 \<le> snd (dayLoop m (Some c) (Some t) (acc, n))"
proof (induction k arbitrary: t acc n)
  case 0
  then have le: "date_le (Some t) (Some c)" by (simp add: date_le_def)
  have "n + 1 \<le> snd (dayLoop m (Some c) (addDays 1 (Some t))
          (acc + count_or_0 m (toISODate t), n + 1))"
    by (rule dayLoop_mono)
  then show ?case using le by (subst dayLoop.simps) simp
next
  case (Suc k)
  have pos: "0 < msPerDay" by (simp add: msPerDay_def)
  from Suc.prems have step: "t + msPerDay + int k * msPerDay \<le> c"
    by (simp add: algebra_simps)
  have "0 \<le> int k * msPerDay" using pos by simp
  with step have tc: "t + msPerDay \<le> c" by linarith
  with pos have le: "date_le (Some t) (Some c)" by (simp add: date_le_def)
  have clip: "addDays 1 (Some t) = Some (t + msPerDay)"
    using Suc.prems(1,2) tc pos by (simp add: addDays_def TimeClip_def)
  have "- maxTime \<le> t + msPerDay" using Suc.prems(1) pos by linarith
  from Suc.IH[OF this Suc.prems(2) step]
  have "n + 1 + k + 1 \<le> snd (dayLoop m (Some c) (Some (t + msPerDay))
          (acc + count_or_0 m (toISODate t), n + 1))" .
  then show ?case using le clip by (subst dayLoop.simps) simp
qed

text \<open>
  The day counter of the loop counts calendar days, not days with data: for every target
  date whose window lies in the range of \<open>Date\<close> the loop runs 31 times and the result is
  a number, whatever the map holds.
\<close>

lemma full_window_never_null:
  assumes "parse target = Some t" and "- maxTime \<le> t - 30 * msPerDay" and "t \<le> maxTime"
  shows "\<exists>n. calculate30DayRollingSum parse m target = Some (Fin (of_nat n / 30))"
proof -
  have pos: "0 < msPerDay" by (simp add: msPerDay_def)
  have before: "addDays (- 30) (Some t) = Some (t - 30 * msPerDay)"
    using assms(2,3) pos by (simp add: addDays_def TimeClip_def)
  have "0 + 30 + 1 \<le> snd (dayLoop m (Some t) (Some (t - 30 * msPerDay)) (0, 0))"
    by (rule dayLoop_count) (use assms in simp_all)
  then show ?thesis
    unfolding calculate30DayRollingSum_def Let_def assms(1) before
    by (cases "dayLoop m (Some t) (Some (t - 30 * msPerDay)) (0, 0)") (simp add: of_count_def)
qed

lemma dayLoop_None: "dayLoop m current None (acc, n) = (acc, n)"
  by (subst dayLoop.simps) simp

text \<open>
  The missing value is returned only for a target date that does not parse, or one so
  close to the earliest \<open>Date\<close> that the day thirty days before it is out of range.
\<close>

lemma full_window_null:
  assumes "parse target = None \<or> (\<exists>t. parse target = Some t \<and> t - 30 * msPerDay < - maxTime)"
  shows "calculate30DayRollingSum parse m target = None"
proof -
  have "addDays (- 30) (parse target) = None"
    using assms by (auto simp: addDays_def TimeClip_def)
  then show ?thesis
    by (simp add: calculate30DayRollingSum_def Let_def dayLoop_None)
qed

lemma dayLoop_step:
  "t \<le> c \<Longrightarrow> \<bar>t + 86400000\<bar> \<le> 8640000000000000 \<Longrightarrow>
     dayLoop m (Some c) (Some t) (acc, n)
       = dayLoop m (Some c) (Some (t + 86400000)) (acc + count_or_0 m (toISODate t), n + 1)"
  by (subst dayLoop.simps)
    (simp add: date_le_def addDays_def TimeClip_def msPerDay_def maxTime_def)

lemma dayLoop_stop: "c < t \<Longrightarrow> dayLoop m (Some c) (Some t) (acc, n) = (acc, n)"
  by (subst dayLoop.simps) (simp add: date_le_def)

lemmas rolling_eval = calculate30DayRollingSum_def addDays_def TimeClip_def maxTime_def
  dayLoop_step dayLoop_stop date_eval count_or_0_def get_prop_def Object_prototype_keys_def
  of_count_def

lemma rolling_sum_two_rows:
  "calculate30DayRollingSum parseDateOnly [(''2024-01-01'', 2)] ''2024-01-01''
     = Some (Fin (2 / 30))"
  by (simp add: parse_0101 rolling_eval)

lemma rolling_sum_no_rows:
  "calculate30DayRollingSum parseDateOnly [] ''2024-01-01'' = Some (Fin 0)"
  by (simp add: parse_0101 rolling_eval)

text \<open>
  Claim C2, evaluated. The map holds one date, 2024-01-01, with count 5: no day of
  history precedes the target date 2024-01-01. The full-window average is the number
  5/30 and not the missing value.
\<close>

theorem first_day_has_average:
  "calculate30DayRollingSum parseDateOnly [(''2024-01-01'', 5)] ''2024-01-01''
     = Some (Fin (5 / 30))"
  by (simp add: parse_0101 rolling_eval)

section \<open>Counts per date\<close>

lemma get_prop_Undefined: "get_prop acc k = Undefined \<Longrightarrow> k \<notin> fst ` set acc"
  by (auto simp: get_prop_def map_of_eq_None_iff split: option.splits if_splits)

lemma fst_in: "(k, v) \<in> set acc \<Longrightarrow> k \<in> fst ` set acc"
  by force

lemma map_fst_set_prop:
  "map fst (set_prop acc k v)
     = (if k \<in> set (map fst acc) then map fst acc else map fst acc @ [k])"
  by (induction acc) (auto dest: fst_in)

lemma keys_set_prop: "fst ` set (set_prop acc k v) = insert k (fst ` set acc)"
proof -
  have "set (map fst (set_prop acc k v)) = insert k (set (map fst acc))"
    unfolding map_fst_set_prop by auto
  then show ?thesis by (simp only: set_map)
qed

lemma distinct_set_prop: "distinct (map fst acc) \<Longrightarrow> distinct (map fst (set_prop acc k v))"
  unfolding map_fst_set_prop by simp

lemma set_set_prop_distinct:
  "distinct (map fst acc) \<Longrightarrow>
     set (set_prop acc k v) = insert (k, v) {e \<in> set acc. fst e \<noteq> k}"
proof (induction acc)
  case Nil
  then show ?case by simp
next
  case (Cons e acc)
  obtain k' v' where e: "e = (k', v')" by (cases e)
  show ?case
  proof (cases "k' = k")
    case True
    with Cons.prems e have "k \<notin> fst ` set acc" by simp
    then have "{x \<in> set acc. fst x \<noteq> k} = set acc" by (auto dest: fst_in)
    moreover have "{x \<in> set (e # acc). fst x \<noteq> k} = {x \<in> set acc. fst x \<noteq> k}"
      using True e by auto
    ultimately show ?thesis using True e by simp
  next
    case False
    have "{x \<in> set (e # acc). fst x \<noteq> k} = insert e {x \<in> set acc. fst x \<noteq> k}"
      using False e by auto
    moreover have "set (set_prop acc k v) = insert (k, v) {e \<in> set acc. fst e \<noteq> k}"
      using Cons by simp
    ultimately show ?thesis using False e by (simp add: insert_commute)
  qed
qed

lemma set_Set_add: "set (Set_add s x) = insert x (set s)"
  by (auto simp: Set_add_def)

lemma distinct_Set_add: "distinct s \<Longrightarrow> distinct (Set_add s x)"
  by (auto simp: Set_add_def)

lemma ids_step:
  assumes inv: "ids_inv seen acc" and st: "idsByDate_step acc x = Inr acc'"
  shows "ids_inv (seen @ [x]) acc'"
proof (cases "bucketDate x")
  case None
  with st have "acc' = acc" by (simp add: idsByDate_step_def)
  moreover have "{y \<in> set (seen @ [x]). bucketDate y = Some d}
      = {y \<in> set seen. bucketDate y = Some d}" for d
    using None by auto
  ultimately show ?thesis using inv None by (simp add: ids_inv_def)
next
  case (Some k)
  from inv have dist: "distinct (map fst acc)" by (simp add: ids_inv_def)
  from inv have cover: "\<And>y d. y \<in> set seen \<Longrightarrow> bucketDate y = Some d \<Longrightarrow> d \<in> fst ` set acc"
    by (auto simp: ids_inv_def)
  from inv have sets: "\<And>d ids. (d, ids) \<in> set acc \<Longrightarrow>
      distinct ids \<and> set ids = deal_id ` {y \<in> set seen. bucketDate y = Some d}"
    by (auto simp: ids_inv_def)
  obtain old where acc': "acc' = set_prop acc k (Set_add old (deal_id x))"
    and old: "distinct old \<and> set old = deal_id ` {y \<in> set seen. bucketDate y = Some k}"
  proof (cases "get_prop acc k")
    case (Own ids)
    with st Some have "acc' = set_prop acc k (Set_add ids (deal_id x))"
      by (simp add: idsByDate_step_def)
    moreover from Own have "(k, ids) \<in> set acc" by (rule get_prop_Own)
    ultimately show ?thesis using that sets by blast
  next
    case Inherited
    with st Some show ?thesis by (simp add: idsByDate_step_def)
  next
    case Undefined
    with st Some have "acc' = set_prop acc k (Set_add [] (deal_id x))"
      by (simp add: idsByDate_step_def)
    moreover from Undefined have "k \<notin> fst ` set acc" by (rule get_prop_Undefined)
    with cover have "{y \<in> set seen. bucketDate y = Some k} = {}" by blast
    ultimately show ?thesis using that[of "[]"] by simp
  qed
  have new: "set (Set_add old (deal_id x))
      = deal_id ` {y \<in> set (seen @ [x]). bucketDate y = Some k}"
    using old Some by (auto simp: set_Set_add)
  have other: "{y \<in> set (seen @ [x]). bucketDate y = Some d} = {y \<in> set seen. bucketDate y = Some d}"
    if "d \<noteq> k" for d
    using that Some by auto
  show ?thesis
    unfolding ids_inv_def
  proof (intro conjI ballI allI impI)
    show "distinct (map fst acc')" unfolding acc' using dist by (rule distinct_set_prop)
  next
    fix y d assume "y \<in> set (seen @ [x])" "bucketDate y = Some d"
    then show "d \<in> fst ` set acc'"
      using cover Some by (auto simp: acc' keys_set_prop)
  next
    fix e assume "e \<in> set acc'"
    then consider "e = (k, Set_add old (deal_id x))" | "e \<in> set acc" "fst e \<noteq> k"
      unfolding acc' set_set_prop_distinct[OF dist] by auto
    then show "case e of (d, ids) \<Rightarrow>
        distinct ids \<and> set ids = deal_id ` {y \<in> set (seen @ [x]). bucketDate y = Some d}"
    proof cases
      case 1
      then show ?thesis using new old by (simp add: distinct_Set_add)
    next
      case 2
      obtain d ids where e: "e = (d, ids)" by (cases e)
      with 2 sets[of d ids] other[of d] show ?thesis by simp
    qed
  qed
qed

lemma ids_reduce:
  "reduce idsByDate_step xs acc = Inr acc' \<Longrightarrow> ids_inv seen acc \<Longrightarrow> ids_inv (seen @ xs) acc'"
proof (induction xs arbitrary: acc seen)
  case Nil
  then show ?case by simp
next
  case (Cons x xs)
  from Cons.prems(1) obtain acc1 where s: "idsByDate_step acc x = Inr acc1"
    and r: "reduce idsByDate_step xs acc1 = Inr acc'"
    by (auto split: sum.splits)
  from ids_step[OF Cons.prems(2) s] have "ids_inv (seen @ [x]) acc1" .
  from Cons.IH[OF r this] show ?case by simp
qed

lemma counts_distinct_ids:
  assumes "countByDate pred ds = Inr m" and "(d, n) \<in> set m"
  shows "n = distinct_ids pred ds d"
proof -
  from assms(1) obtain byDate where r: "reduce idsByDate_step (filter pred ds) [] = Inr byDate"
    and m: "m = map (\<lambda>(d, dealIds). (d, length dealIds)) (Object_entries byDate)"
    by (auto simp: countByDate_def split: sum.splits)
  have "ids_inv [] []" by (simp add: ids_inv_def)
  from ids_reduce[OF r this] have inv: "ids_inv (filter pred ds) byDate" by simp
  from assms(2) m obtain ids where "(d, ids) \<in> set byDate" and n: "n = length ids"
    by (auto simp: set_Object_entries)
  with inv have "distinct ids"
    and "set ids = deal_id ` {x \<in> set (filter pred ds). bucketDate x = Some d}"
    by (auto simp: ids_inv_def)
  moreover have "{x \<in> set (filter pred ds). bucketDate x = Some d}
      = {x \<in> set ds. pred x \<and> bucketDate x = Some d}"
    by auto
  ultimately have "length ids = card (deal_id ` {x \<in> set ds. pred x \<and> bucketDate x = Some d})"
    using distinct_card[of ids] by simp
  with n show ?thesis by (simp add: distinct_ids_def)
qed

text \<open>The keys of the accumulator are the dates of the deals seen.\<close>

lemma ids_keys:
  "reduce idsByDate_step xs acc = Inr acc' \<Longrightarrow>
     fst ` set acc' = fst ` set acc \<union> {d. \<exists>x \<in> set xs. bucketDate x = Some d}"
proof (induction xs arbitrary: acc)
  case Nil
  then show ?case by simp
next
  case (Cons x xs)
  from Cons.prems obtain acc1 where s: "idsByDate_step acc x = Inr acc1"
    and r: "reduce idsByDate_step xs acc1 = Inr acc'"
    by (auto split: sum.splits)
  have "fst ` set acc1 = fst ` set acc \<union> {d. bucketDate x = Some d}"
  proof (cases "bucketDate x")
    case None
    with s show ?thesis by (simp add: idsByDate_step_def)
  next
    case (Some k)
    from s Some obtain ids where "acc1 = set_prop acc k ids"
      by (auto simp: idsByDate_step_def split: property.splits)
    with Some show ?thesis by (simp add: keys_set_prop)
  qed
  with Cons.IH[OF r] show ?case by auto
qed

lemma count_keys:
  assumes "countByDate pred ds = Inr m"
  shows "distinct (map fst m)"
    and "fst ` set m = {d. \<exists>x \<in> set ds. pred x \<and> bucketDate x = Some d}"
proof -
  from assms obtain byDate where r: "reduce idsByDate_step (filter pred ds) [] = Inr byDate"
    and m: "m = map (\<lambda>(d, dealIds). (d, length dealIds)) (Object_entries byDate)"
    by (auto simp: countByDate_def split: sum.splits)
  have fst_m: "map fst m = map fst (Object_entries byDate)"
    unfolding m by (simp add: case_prod_beta comp_def)
  have "ids_inv [] []" by (simp add: ids_inv_def)
  from ids_reduce[OF r this] have "distinct (map fst byDate)" by (simp add: ids_inv_def)
  moreover have "mset (map fst (Object_entries byDate)) = mset (map fst byDate)"
    by (simp add: mset_Object_entries)
  ultimately show "distinct (map fst m)"
    unfolding fst_m using mset_eq_imp_distinct_iff by blast
  have "fst ` set m = set (map fst m)" by simp
  also have "\<dots> = fst ` set byDate" unfolding fst_m by (simp add: set_Object_entries)
  also have "\<dots> = {d. \<exists>x \<in> set ds. pred x \<and> bucketDate x = Some d}"
    using ids_keys[OF r] by auto
  finally show "fst ` set m = {d. \<exists>x \<in> set ds. pred x \<and> bucketDate x = Some d}" .
qed

text \<open>A row that repeats the \<open>deal_id\<close> and the date of a row seen leaves the sets as they are.\<close>

lemma get_prop_distinct:
  "distinct (map fst acc) \<Longrightarrow> (k, v) \<in> set acc \<Longrightarrow> get_prop acc k = Own v"
  by (simp add: get_prop_def)

lemma set_prop_same:
  "distinct (map fst acc) \<Longrightarrow> (k, v) \<in> set acc \<Longrightarrow> set_prop acc k v = acc"
  by (induction acc) (auto dest: fst_in)

lemma reduce_append:
  "reduce f (xs @ ys) acc
     = (case reduce f xs acc of Inl e \<Rightarrow> Inl e | Inr acc' \<Rightarrow> reduce f ys acc')"
  by (induction xs arbitrary: acc) (auto split: sum.splits)

lemma duplicate_step:
  assumes inv: "ids_inv seen acc" and y: "y \<in> set seen"
    and id: "deal_id x = deal_id y" and date: "bucketDate x = bucketDate y"
  shows "idsByDate_step acc x = Inr acc"
proof (cases "bucketDate x")
  case None
  then show ?thesis by (simp add: idsByDate_step_def)
next
  case (Some d)
  from inv have dist: "distinct (map fst acc)" by (simp add: ids_inv_def)
  from inv y Some date have "d \<in> fst ` set acc" by (auto simp: ids_inv_def)
  then obtain ids where mem: "(d, ids) \<in> set acc" by auto
  with inv have "set ids = deal_id ` {z \<in> set seen. bucketDate z = Some d}"
    by (auto simp: ids_inv_def)
  with y Some date id have "deal_id x \<in> set ids" by auto
  then have "Set_add ids (deal_id x) = ids" by (simp add: Set_add_def)
  with Some get_prop_distinct[OF dist mem] set_prop_same[OF dist mem]
  show ?thesis by (simp add: idsByDate_step_def)
qed

lemma duplicate_row:
  assumes "pred x" and "pred y" and "y \<in> set ds"
    and "deal_id x = deal_id y" and "bucketDate x = bucketDate y"
  shows "countByDate pred (ds @ [x]) = countByDate pred ds"
proof (cases "reduce idsByDate_step (filter pred ds) []")
  case (Inl e)
  with assms(1) show ?thesis by (simp add: countByDate_def reduce_append)
next
  case (Inr acc)
  have "ids_inv [] []" by (simp add: ids_inv_def)
  from ids_reduce[OF Inr this] have "ids_inv (filter pred ds) acc" by simp
  moreover from assms(2,3) have "y \<in> set (filter pred ds)" by simp
  ultimately have "idsByDate_step acc x = Inr acc"
    using assms(4,5) by (rule duplicate_step)
  with Inr assms(1) show ?thesis by (simp add: countByDate_def reduce_append)
qed

text \<open>The counts exist unless a date is a name that \<open>Object.prototype\<close> defines.\<close>

lemma countByDate_returns:
  assumes "\<forall>x \<in> set ds. \<forall>d. pred x \<and> bucketDate x = Some d \<longrightarrow> d \<notin> set Object_prototype_keys"
  shows "\<exists>m. countByDate pred ds = Inr m"
proof -
  have "\<exists>acc'. reduce idsByDate_step xs acc = Inr acc'"
    if "\<forall>x \<in> set xs. \<forall>d. bucketDate x = Some d \<longrightarrow> d \<notin> set Object_prototype_keys"
    for xs and acc :: "string list obj"
    using that
  proof (induction xs arbitrary: acc)
    case Nil
    then show ?case by simp
  next
    case (Cons x xs)
    have "\<exists>acc1. idsByDate_step acc x = Inr acc1"
      using Cons.prems
      by (auto simp: idsByDate_step_def get_prop_def split: option.splits)
    then obtain acc1 where "idsByDate_step acc x = Inr acc1" ..
    moreover from Cons have "\<exists>acc'. reduce idsByDate_step xs acc1 = Inr acc'" by simp
    ultimately show ?case by auto
  qed
  note total = this
  from assms have "\<forall>x \<in> set (filter pred ds).
      \<forall>d. bucketDate x = Some d \<longrightarrow> d \<notin> set Object_prototype_keys"
    by auto
  from total[OF this, of "[]"] obtain byDate where
    "reduce idsByDate_step (filter pred ds) [] = Inr byDate" ..
  then show ?thesis by (simp add: countByDate_def)
qed

lemma ids_of_two:
  "countByDate statusSettled [settledRow, settledRow] = Inr [(''2024-01-01'', 1)]"
  by (simp add: countByDate_def statusSettled_def settledRow_def blankDeal_def
      idsByDate_step_def bucketDate_def trim_def isWhiteSpace_def get_prop_def
      Object_prototype_keys_def Set_add_def Object_entries_def array_index_def isDigit_def)

subsection \<open>The generated deals\<close>

text \<open>A decimal numeral determines its number, so the generated \<open>deal_id\<close>s differ.\<close>

lemma digit_val_digit_char: "n < 10 \<Longrightarrow> digit_val (digit_char n) = n"
  by (simp add: digit_val_def digit_char_def)

lemma decimal_val_digits: "decimal_val (digits n) = n"
proof (induction n rule: digits.induct)
  case (1 n)
  show ?case
  proof (cases "n < 10")
    case True
    then show ?thesis
      by (subst digits.simps) (simp add: decimal_val_def digit_val_digit_char)
  next
    case False
    with "1" have "decimal_val (digits (n div 10)) = n div 10" by simp
    then have "foldl (\<lambda>n c. 10 * n + digit_val c) 0 (digits (n div 10)) = n div 10"
      by (simp add: decimal_val_def)
    with False show ?thesis
      by (subst digits.simps) (simp add: decimal_val_def digit_val_digit_char)
  qed
qed

lemma digits_inj: "digits m = digits n \<Longrightarrow> m = n"
  by (metis decimal_val_digits)

lemma loop_ids:
  "reduce (\<lambda>made i. case sampleDeal s e (rnd i) i of
                       Inl err \<Rightarrow> Inl err
                     | Inr deal \<Rightarrow> Inr (made @ [deal])) js acc = Inr ds
     \<Longrightarrow> map deal_id ds = map deal_id acc @ map (\<lambda>i. ''deal_'' @ digits i) js"
proof (induction js arbitrary: acc)
  case Nil
  then show ?case by simp
next
  case (Cons j js)
  from Cons.prems obtain deal where d: "sampleDeal s e (rnd j) j = Inr deal"
    and r: "reduce (\<lambda>made i. case sampleDeal s e (rnd i) i of
                       Inl err \<Rightarrow> Inl err
                     | Inr deal \<Rightarrow> Inr (made @ [deal])) js (acc @ [deal]) = Inr ds"
    by (auto split: sum.splits)
  from d have "deal_id deal = ''deal_'' @ digits j"
    by (auto simp: sampleDeal_def Let_def split: option.splits)
  with Cons.IH[OF r] show ?case by simp
qed

lemma loop_created:
  "reduce (\<lambda>made i. case sampleDeal s e (rnd i) i of
                       Inl err \<Rightarrow> Inl err
                     | Inr deal \<Rightarrow> Inr (made @ [deal])) js acc = Inr ds
     \<Longrightarrow> \<forall>x \<in> set acc. \<exists>t. created_date x = Some (toISODate t)
     \<Longrightarrow> \<forall>x \<in> set ds. \<exists>t. created_date x = Some (toISODate t)"
proof (induction js arbitrary: acc)
  case Nil
  then show ?case by simp
next
  case (Cons j js)
  from Cons.prems(1) obtain deal where d: "sampleDeal s e (rnd j) j = Inr deal"
    and r: "reduce (\<lambda>made i. case sampleDeal s e (rnd i) i of
                       Inl err \<Rightarrow> Inl err
                     | Inr deal \<Rightarrow> Inr (made @ [deal])) js (acc @ [deal]) = Inr ds"
    by (auto split: sum.splits)
  from d have "\<exists>t. created_date deal = Some (toISODate t)"
    by (auto simp: sampleDeal_def Let_def split: option.splits)
  with Cons.prems(2) have "\<forall>x \<in> set (acc @ [deal]). \<exists>t. created_date x = Some (toISODate t)"
    by auto
  from Cons.IH[OF r this] show ?case .
qed

lemma generated_distinct:
  assumes "generateSampleDeals parse rnd = Inr ds"
  shows "distinct (map deal_id ds)"
proof -
  from assms obtain s e made where
    r: "reduce (\<lambda>made i. case sampleDeal s e (rnd i) i of
                       Inl err \<Rightarrow> Inl err
                     | Inr deal \<Rightarrow> Inr (made @ [deal])) [0..<2000] [] = Inr made"
    and ds: "ds = Array_sort (\<lambda>a b. num_sub (createdTime parse a) (createdTime parse b)) made"
    by (auto simp: generateSampleDeals_def split: option.splits sum.splits)
  from loop_ids[OF r] have "map deal_id made = map (\<lambda>i. ''deal_'' @ digits i) [0..<2000]"
    by simp
  moreover have "distinct (map (\<lambda>i. ''deal_'' @ digits i) [0..<2000])"
    by (simp only: distinct_map distinct_upt) (auto intro!: inj_onI dest: digits_inj)
  ultimately have "distinct (map deal_id made)" by simp
  moreover have "mset (map deal_id ds) = mset (map deal_id made)"
    unfolding ds by (simp add: Array_sort_mset)
  ultimately show ?thesis using mset_eq_imp_distinct_iff by blast
qed

text \<open>
  The created dates of the generated deals are calendar days in the form of
  \<open>toISOString\<close>; none is a name that \<open>Object.prototype\<close> defines.
\<close>

lemma generated_created:
  assumes "generateSampleDeals parse rnd = Inr ds" and "x \<in> set ds"
  shows "\<exists>t. created_date x = Some (toISODate t)"
proof -
  from assms(1) obtain s e made where
    r: "reduce (\<lambda>made i. case sampleDeal s e (rnd i) i of
                       Inl err \<Rightarrow> Inl err
                     | Inr deal \<Rightarrow> Inr (made @ [deal])) [0..<2000] [] = Inr made"
    and ds: "ds = Array_sort (\<lambda>a b. num_sub (createdTime parse a) (createdTime parse b)) made"
    by (auto simp: generateSampleDeals_def split: option.splits sum.splits)
  from loop_created[OF r] have "\<forall>x \<in> set made. \<exists>t. created_date x = Some (toISODate t)"
    by simp
  with assms(2) show ?thesis unfolding ds by (simp add: Array_sort_set)
qed

lemma toISODate_no_prototype_key: "toISODate t \<notin> set Object_prototype_keys"
proof -
  have "CHR ''-'' \<in> set (toISODate t)"
    by (cases "civil_from_days (t div msPerDay)") (simp add: toISODate_def)
  moreover have "\<forall>k \<in> set Object_prototype_keys. CHR ''-'' \<notin> set k"
    by (simp add: Object_prototype_keys_def)
  ultimately show ?thesis by blast
qed

text \<open>With the parser of the standard the generator returns its 2000 deals.\<close>

lemma parse_start: "parseDateOnly ''2023-01-01'' = Some 1672531200000"
  unfolding parseDateOnly_def days_from_civil_def Let_def by (simp add: parse_eval)

lemma parse_end: "parseDateOnly ''2025-01-10'' = Some 1736467200000"
  unfolding parseDateOnly_def days_from_civil_def Let_def by (simp add: parse_eval)

lemma sampleDeal_returns:
  "\<exists>deal. sampleDeal 1672531200000 1736467200000 r i = Inr deal"
proof -
  define x where "x = Rep_random (dateDraw r)"
  have x: "0 \<le> x" "x < 1" using Rep_random[of "dateDraw r"] by (simp_all add: x_def)
  define v :: rat where "v = 1672531200000 + x * 63936000000"
  have v: "0 \<le> v" "v < 1736467200000" using x by (simp_all add: v_def)
  then have "Date_of_number v = Some \<lfloor>v\<rfloor>"
    by (simp add: Date_of_number_def ToInteger_def maxTime_def)
  then show ?thesis
    by (simp add: sampleDeal_def Let_def v_def x_def)
qed

lemma loop_returns:
  "\<exists>ds. reduce (\<lambda>made i. case sampleDeal 1672531200000 1736467200000 (rnd i) i of
                       Inl err \<Rightarrow> Inl err
                     | Inr deal \<Rightarrow> Inr (made @ [deal])) js acc = Inr ds
        \<and> length ds = length acc + length js"
proof (induction js arbitrary: acc)
  case Nil
  then show ?case by simp
next
  case (Cons j js)
  obtain deal where d: "sampleDeal 1672531200000 1736467200000 (rnd j) j = Inr deal"
    using sampleDeal_returns by blast
  from Cons[of "acc @ [deal]"] d show ?case by auto
qed

lemma length_Array_sort: "length (Array_sort cmp xs) = length xs"
  using Array_sort_mset[of cmp xs] by (metis size_mset)

lemma generator_returns:
  "\<exists>ds. generateSampleDeals parseDateOnly rnd = Inr ds \<and> length ds = 2000"
proof -
  from loop_returns[of rnd "[0..<2000]" "[]"] obtain made where
    "reduce (\<lambda>made i. case sampleDeal 1672531200000 1736467200000 (rnd i) i of
                       Inl err \<Rightarrow> Inl err
                     | Inr deal \<Rightarrow> Inr (made @ [deal])) [0..<2000] [] = Inr made"
    and "length made = 2000"
    by auto
  then show ?thesis
    by (simp add: generateSampleDeals_def parse_start parse_end length_Array_sort)
qed

text \<open>The deal with index 7 when every draw is 1/2.\<close>

lemma sample_deal_7:
  "sampleDeal 1672531200000 1736467200000 halfDraws 7
     = Inr (blankDeal\<lparr>deal_id := ''deal_7'', deal_name := ''Deal 7'',
                      broker_name := ''Broker 7'', deal_value := Some 750000,
                      status := ''4. Loan Document'', created_date := Some ''2024-01-06'',
                      From_Rednote := ''No''\<rparr>)"
proof -
  have h: "Rep_random (Abs_random (1 / 2)) = 1 / 2"
    by (rule Abs_random_inverse) simp
  show ?thesis
    by (simp add: sampleDeal_def halfDraws_def h ToInteger_def Date_of_number_def maxTime_def
        sampleStatuses_def blankDeal_def floor_rat_numeral date_eval)
qed

subsection \<open>Rows per date\<close>

lemma map_of_set_prop: "map_of (set_prop acc k v) = (map_of acc)(k \<mapsto> v)"
  by (induction acc) auto

lemma count_set_prop:
  "count_or_0 (set_prop acc k v) d = (if d = k then v else count_or_0 acc d)"
  by (simp add: count_or_0_def get_prop_def map_of_set_prop)

lemma rows_fold:
  "count_or_0 (foldl (\<lambda>acc deal. let d = createdKey deal
                                   in set_prop acc d (count_or_0 acc d + 1)) acc ds) d
     = count_or_0 acc d + length (filter (\<lambda>x. createdKey x = d) ds)"
  by (induction ds arbitrary: acc) (simp_all add: Let_def count_set_prop)

lemma rows_fold_keys:
  "distinct (map fst acc) \<Longrightarrow>
     distinct (map fst (foldl (\<lambda>acc deal. let d = createdKey deal
                                            in set_prop acc d (count_or_0 acc d + 1)) acc ds))
     \<and> fst ` set (foldl (\<lambda>acc deal. let d = createdKey deal
                                      in set_prop acc d (count_or_0 acc d + 1)) acc ds)
         = fst ` set acc \<union> createdKey ` set ds"
proof (induction ds arbitrary: acc)
  case Nil
  then show ?case by simp
next
  case (Cons x ds)
  let ?acc = "set_prop acc (createdKey x) (count_or_0 acc (createdKey x) + 1)"
  from Cons.prems have "distinct (map fst ?acc)" by (rule distinct_set_prop)
  from Cons.IH[OF this] show ?case by (auto simp: Let_def keys_set_prop)
qed

lemma rowsByDate_rows:
  assumes "(d, n) \<in> set (rowsByDate ds)"
  shows "n = length (filter (\<lambda>x. createdKey x = d) ds)"
proof -
  have "distinct (map fst (rowsByDate ds))"
    unfolding rowsByDate_def using rows_fold_keys[of "[]" ds] by simp
  from get_prop_distinct[OF this assms] have "count_or_0 (rowsByDate ds) d = n"
    by (simp add: count_or_0_def)
  moreover have "count_or_0 (rowsByDate ds) d = length (filter (\<lambda>x. createdKey x = d) ds)"
    unfolding rowsByDate_def rows_fold by (simp add: count_or_0_def get_prop_def)
  ultimately show ?thesis by simp
qed

lemma rowsByDate_keys: "fst ` set (rowsByDate ds) = createdKey ` set ds"
  unfolding rowsByDate_def using rows_fold_keys[of "[]" ds] by simp

lemma distinct_rows_ids:
  assumes "distinct (map deal_id ds)"
  shows "length (filter P ds) = card (deal_id ` {x \<in> set ds. P x})"
proof -
  from assms have "distinct (map deal_id (filter P ds))" by (rule distinct_map_filter)
  from distinct_card[OF this] show ?thesis by simp
qed

lemma loaded_distinct: "distinct (map deal_id (loadDeals parse rnd))"
  by (auto simp: loadDeals_def generated_distinct split: sum.splits)

lemma yearFiltered_distinct:
  "distinct (map deal_id ds) \<Longrightarrow> distinct (map deal_id (yearFiltered parse tzo ds y))"
  by (simp add: yearFiltered_def distinct_map_filter)

lemma rows_of_two: "rowsByDate [settledRow, settledRow2] = [(''2024-01-01'', 2)]"
  by (simp add: rowsByDate_def createdKey_def settledRow2_def settledRow_def blankDeal_def
      count_or_0_def get_prop_def Object_prototype_keys_def)

text \<open>
  The chart of the sample-data page for two settled rows of one day: the only date has a
  point, and its settled average is 2/30.
\<close>

lemma sample_chart_two_rows:
  "chartData_sample parseDateOnly 0 [settledRow, settledRow2] ''all''
     = [\<lparr>date = ''2024-01-01'', settledDeals30DayAvg = Some (Fin (2 / 30)),
         rednoteDeals30DayAvg = Some (Fin 0)\<rparr>]"
proof -
  have s: "filter statusSettled [settledRow, settledRow2] = [settledRow, settledRow2]"
    by (simp add: statusSettled_def settledRow2_def settledRow_def blankDeal_def)
  have r: "filter fromRednote [settledRow, settledRow2] = []"
    by (simp add: fromRednote_def settledRow2_def settledRow_def blankDeal_def)
  have e: "Object_entries [(''2024-01-01'', 2::nat)] = [(''2024-01-01'', 2)]"
    by (simp add: Object_entries_def array_index_def isDigit_def)
  have n: "rowsByDate [] = []" by (simp add: rowsByDate_def)
  have y: "yearFiltered parseDateOnly 0 [settledRow, settledRow2] ''all''
             = [settledRow, settledRow2]"
    by (simp add: yearFiltered_def)
  have "chartData_sample parseDateOnly 0 [settledRow, settledRow2] ''all''
      = (let allDates = sort (Set_from (map fst (Object_entries [(''2024-01-01'', 2::nat)])
                                          @ map fst (Object_entries ([] :: nat obj))));
             result = map (\<lambda>d. \<lparr>date = d,
                 settledDeals30DayAvg
                   = calculate30DayRollingSum parseDateOnly [(''2024-01-01'', 2)] d,
                 rednoteDeals30DayAvg = calculate30DayRollingSum parseDateOnly [] d\<rparr>) allDates
         in filter (\<lambda>p. settledDeals30DayAvg p \<noteq> None \<or> rednoteDeals30DayAvg p \<noteq> None)
              result)"
    by (simp only: chartData_sample_def Let_def y s r rows_of_two n) simp
  also have "\<dots> = [\<lparr>date = ''2024-01-01'', settledDeals30DayAvg = Some (Fin (2 / 30)),
         rednoteDeals30DayAvg = Some (Fin 0)\<rparr>]"
    by (simp add: e Object_entries_def Set_from_def Set_add_def rolling_sum_two_rows
        rolling_sum_no_rows)
  finally show ?thesis .
qed

subsection \<open>Distinct deals per date\<close>

text \<open>
  Claim C4. On the page that reads the uploaded deals, for every list of deals, the
  counts given to the rolling average have one entry for each date of a selected deal,
  and the entry is the number of distinct \<open>deal_id\<close>s among the selected deals of that
  date; a row that repeats the \<open>deal_id\<close> and the date of a selected row changes no
  count. On the page with the generated sample deals no two rows share a \<open>deal_id\<close>, and
  the count of a date, the number of its selected rows, is the number of distinct
  \<open>deal_id\<close>s among them.
\<close>

theorem distinct_ids_counted:
  "(countByDate pred ds = Inr m \<longrightarrow>
      distinct (map fst m)
      \<and> fst ` set m = {d. \<exists>x \<in> set ds. pred x \<and> bucketDate x = Some d}
      \<and> (\<forall>(d, n) \<in> set m. n = distinct_ids pred ds d))
   \<and> (pred x \<and> pred y \<and> y \<in> set ds \<and> deal_id x = deal_id y \<and> bucketDate x = bucketDate y
        \<longrightarrow> countByDate pred (ds @ [x]) = countByDate pred ds)
   \<and> (let rows = filter pred (yearFiltered parse tzo (loadDeals parse rnd) selectedYear)
      in distinct (map deal_id rows)
         \<and> fst ` set (rowsByDate rows) = createdKey ` set rows
         \<and> (\<forall>(d, n) \<in> set (rowsByDate rows).
               n = card (deal_id ` {r \<in> set rows. createdKey r = d})))"
proof -
  have upload: "countByDate pred ds = Inr m \<longrightarrow>
      distinct (map fst m)
      \<and> fst ` set m = {d. \<exists>x \<in> set ds. pred x \<and> bucketDate x = Some d}
      \<and> (\<forall>(d, n) \<in> set m. n = distinct_ids pred ds d)"
  proof
    assume c: "countByDate pred ds = Inr m"
    from counts_distinct_ids[OF c] have "\<forall>(d, n) \<in> set m. n = distinct_ids pred ds d"
      by auto
    with count_keys[OF c] show "distinct (map fst m)
      \<and> fst ` set m = {d. \<exists>x \<in> set ds. pred x \<and> bucketDate x = Some d}
      \<and> (\<forall>(d, n) \<in> set m. n = distinct_ids pred ds d)"
      by simp
  qed
  have repeated: "pred x \<and> pred y \<and> y \<in> set ds \<and> deal_id x = deal_id y
        \<and> bucketDate x = bucketDate y
      \<longrightarrow> countByDate pred (ds @ [x]) = countByDate pred ds"
    using duplicate_row[of pred x y ds] by simp
  define rows where
    "rows = filter pred (yearFiltered parse tzo (loadDeals parse rnd) selectedYear)"
  have d: "distinct (map deal_id rows)"
    unfolding rows_def
    by (intro distinct_map_filter yearFiltered_distinct loaded_distinct)
  have "n = card (deal_id ` {r \<in> set rows. createdKey r = k})"
    if "(k, n) \<in> set (rowsByDate rows)" for k n
    using rowsByDate_rows[OF that] distinct_rows_ids[OF d, of "\<lambda>r. createdKey r = k"] by simp
  then have "\<forall>(d, n) \<in> set (rowsByDate rows).
      n = card (deal_id ` {r \<in> set rows. createdKey r = d})"
    by auto
  with d have sample: "let rows = filter pred (yearFiltered parse tzo (loadDeals parse rnd) selectedYear)
      in distinct (map deal_id rows)
         \<and> fst ` set (rowsByDate rows) = createdKey ` set rows
         \<and> (\<forall>(d, n) \<in> set (rowsByDate rows).
               n = card (deal_id ` {r \<in> set rows. createdKey r = d}))"
    unfolding Let_def rows_def[symmetric] by (simp add: rowsByDate_keys)
  show ?thesis by (intro conjI upload repeated sample)
qed

theorem distinct_ids_counted_witness:
  "countByDate statusSettled [settledRow, settledRow] = Inr [(''2024-01-01'', 1)]
   \<and> distinct_ids statusSettled [settledRow, settledRow] ''2024-01-01'' = 1
   \<and> countByDate statusSettled ([settledRow] @ [settledRow])
       = countByDate statusSettled [settledRow]
   \<and> length (loadDeals parseDateOnly (\<lambda>i. halfDraws)) = 2000
   \<and> distinct (map deal_id (filter statusSettled
        (yearFiltered parseDateOnly 0 (loadDeals parseDateOnly (\<lambda>i. halfDraws)) ''all'')))"
proof -
  note c = ids_of_two
  have s: "statusSettled settledRow"
    by (simp add: statusSettled_def settledRow_def blankDeal_def)
  note t1 = distinct_ids_counted[of statusSettled "[settledRow, settledRow]"
      "[(''2024-01-01'', 1)]" settledRow settledRow parseDateOnly 0 "\<lambda>i. halfDraws" "''all''"]
  note t2 = distinct_ids_counted[of statusSettled "[settledRow]" "[]" settledRow settledRow
      parseDateOnly 0 "\<lambda>i. halfDraws" "''all''"]
  from t1 c have "distinct_ids statusSettled [settledRow, settledRow] ''2024-01-01'' = 1"
    by simp
  moreover from t2 s have "countByDate statusSettled ([settledRow] @ [settledRow])
       = countByDate statusSettled [settledRow]"
    by simp
  moreover from t1 have "distinct (map deal_id (filter statusSettled
        (yearFiltered parseDateOnly 0 (loadDeals parseDateOnly (\<lambda>i. halfDraws)) ''all'')))"
    by (simp add: Let_def)
  moreover have "length (loadDeals parseDateOnly (\<lambda>i. halfDraws)) = 2000"
    using generator_returns[of "\<lambda>i. halfDraws"] by (auto simp: loadDeals_def)
  ultimately show ?thesis using c by blast
qed

end
